theory Spec2Isabelle
  imports Main
begin

section \<open>Text handling of \<open>MY_RV_Source5.PY\<close>\<close>

text \<open>
  A Python \<open>str\<close> is modelled as a \<open>string\<close> in which every \<open>char\<close> stands for one code
  point below 256 (a Latin-1 text). The character classes below are the ones Python's
  \<open>str.isspace\<close>, \<open>str.lower\<close> and the \<open>re\<close> module (\<open>\s\<close>, \<open>\d\<close> on a \<open>str\<close> pattern) use
  on that range.
\<close>

definition is_digit :: "char \<Rightarrow> bool" where
  "is_digit c = (c \<in> set ''0123456789'')"

definition is_space :: "char \<Rightarrow> bool" where
  "is_space c = (of_char c \<in> set [9, 10, 11, 12, 13, 28, 29, 30, 31, 32, 133, 160 :: nat])"

definition is_upper :: "char \<Rightarrow> bool" where
  "is_upper c =
     (let n = (of_char c :: nat)
      in (65 \<le> n \<and> n \<le> 90) \<or> (192 \<le> n \<and> n \<le> 222 \<and> n \<noteq> 215))"

text \<open>Lower-casing adds 32 to the code point of an upper-case letter, that is, sets bit 5.\<close>

definition lower_char :: "char \<Rightarrow> char" where
  "lower_char c =
     (if is_upper c
      then (case c of Char b0 b1 b2 b3 b4 b5 b6 b7 \<Rightarrow> Char b0 b1 b2 b3 b4 True b6 b7)
      else c)"

definition lower :: "string \<Rightarrow> string" where
  "lower s = map lower_char s"

definition strip :: "string \<Rightarrow> string" where
  "strip s = rev (dropWhile is_space (rev (dropWhile is_space s)))"

definition starts_with :: "string \<Rightarrow> string \<Rightarrow> bool" where
  "starts_with p s = (take (length p) s = p)"

text \<open>\<open>contains p s\<close> is Python's \<open>p in s\<close> on strings.\<close>

fun contains :: "string \<Rightarrow> string \<Rightarrow> bool" where
  "contains p [] = (p = [])"
| "contains p (c # cs) = (starts_with p (c # cs) \<or> contains p cs)"

subsection \<open>The price pattern \<open>RM\s*(\d+(?:\.\d+)?)\<close>\<close>

text \<open>
  \<open>price_match_at s\<close> is the group of a match that starts at the head of \<open>s\<close>. No
  backtracking is lost: \<open>\s*\<close> and \<open>\d+\<close> are greedy, a shorter \<open>\s*\<close> would leave a
  whitespace for \<open>\d\<close>, and what follows the group is optional.
\<close>

definition price_match_at :: "string \<Rightarrow> string option" where
  "price_match_at s =
     (if starts_with ''RM'' s then
        (let r1 = dropWhile is_space (drop 2 s);
             ds = takeWhile is_digit r1;
             r2 = dropWhile is_digit r1
         in if ds = [] then None
            else (case r2 of
                    [] \<Rightarrow> Some ds
                  | c # r3 \<Rightarrow>
                      (if c = CHR ''.'' \<and> takeWhile is_digit r3 \<noteq> []
                       then Some (ds @ c # takeWhile is_digit r3)
                       else Some ds)))
      else None)"

text \<open>\<open>re.search\<close>: the leftmost position at which the pattern matches.\<close>

fun price_search :: "string \<Rightarrow> string option" where
  "price_search [] = None"
| "price_search (c # cs) =
     (case price_match_at (c # cs) of
        Some g \<Rightarrow> Some g
      | None \<Rightarrow> price_search cs)"

text \<open>
  Lines 291 to 297 of \<open>extract_price\<close>: the numeric group when the text is non-empty,
  contains \<open>RM\<close> and the pattern is found, else the empty string.
\<close>

definition parse_price :: "string \<Rightarrow> string" where
  "parse_price price_text =
     (if price_text \<noteq> [] \<and> contains ''RM'' price_text then
        (case price_search price_text of
           Some g \<Rightarrow> g
         | None \<Rightarrow> [])
      else [])"

subsection \<open>The capacity pattern \<open>(\d+\s*(?:GB|TB))\<close>\<close>

definition capacity_match_at :: "string \<Rightarrow> string option" where
  "capacity_match_at s =
     (let ds = takeWhile is_digit s;
          r1 = dropWhile is_digit s;
          ws = takeWhile is_space r1;
          r2 = dropWhile is_space r1
      in if ds = [] then None
         else if starts_with ''GB'' r2 \<or> starts_with ''TB'' r2
         then Some (ds @ ws @ take 2 r2)
         else None)"

fun capacity_search :: "string \<Rightarrow> string option" where
  "capacity_search [] = None"
| "capacity_search (c # cs) =
     (case capacity_match_at (c # cs) of
        Some g \<Rightarrow> Some g
      | None \<Rightarrow> capacity_search cs)"

text \<open>\<open>capacity_match.group(1).replace(" ", "")\<close> removes the space characters only.\<close>

definition remove_spaces :: "string \<Rightarrow> string" where
  "remove_spaces s = filter (\<lambda>c. c \<noteq> CHR '' '') s"

section \<open>The browser, the clock and the file system as an environment\<close>

text \<open>
  Every call that leaves the script (a WebDriver command, a script run in the page, a
  write of the spreadsheet) is a command. The run keeps the list of the commands it has
  issued; the environment answers a command from that history: whether the call raises,
  and the value it returns otherwise. The script is deterministic, so the history
  identifies the point of the run and any behaviour of browser and site is such an
  environment. \<open>time.sleep\<close> and \<open>print\<close> are left out.
\<close>

datatype exn = TimeoutException | NoSuchElementException | WebDriverException | OSError

datatype locator = ById string | ByTagName string | ByCssSelector string

datatype script =
    CheckRadioById string
  | CheckRadioByNameValue string string
  | CheckRadioByLabel string
  | SetCheckboxById string bool
  | Click locator
  | ScrollIntoView locator
  | ScanForPrice

datatype cmd =
    SetupDriver bool
  | Quit
  | Get string
  | CurrentUrl
  | WaitPresence locator
  | WaitClickable locator
  | WaitVisibleText locator
  | FindElement locator
  | FindElements locator
  | SwitchToFrame nat
  | SelectOptions string
  | SelectByVisibleText string string
  | SelectByIndex string nat
  | ExecuteScript script
  | ToExcel string
  | MakeDirs string

record env =
  raises :: "cmd list \<Rightarrow> cmd \<Rightarrow> exn option"
  truthy :: "cmd list \<Rightarrow> cmd \<Rightarrow> bool"
  text_of :: "cmd list \<Rightarrow> cmd \<Rightarrow> string"
  texts_of :: "cmd list \<Rightarrow> cmd \<Rightarrow> string list"
  count_of :: "cmd list \<Rightarrow> cmd \<Rightarrow> nat"
  today :: string

text \<open>One row of \<open>results_df\<close>, with the columns of line 77.\<close>

record valuation =
  Country :: string
  Device_Type :: string
  Brand :: string
  Model :: string
  Capacity :: string
  Color :: string
  Launch_RRP :: string
  Condition :: string
  Value_Type :: string
  Currency :: string
  Value :: string
  Source :: string
  Updated_on :: string
  Updated_by :: string
  Comments :: string

record st =
  issued :: "cmd list"
  results_df :: "valuation list"

text \<open>
  A piece of the script takes the state and gives back the state with either the
  exception it raised (\<open>Inl\<close>) or its value (\<open>Inr\<close>). What happened before a raise stays
  in the state.
\<close>

type_synonym 'a act = "st \<Rightarrow> (exn + 'a) \<times> st"

definition ret :: "'a \<Rightarrow> 'a act" where
  "ret x s = (Inr x, s)"

definition bind :: "'a act \<Rightarrow> ('a \<Rightarrow> 'b act) \<Rightarrow> 'b act" where
  "bind m k s = (case m s of (Inl e, s') \<Rightarrow> (Inl e, s') | (Inr x, s') \<Rightarrow> k x s')"

text \<open>\<open>try: m  except Exception as e: h e\<close>\<close>

definition try_except :: "'a act \<Rightarrow> (exn \<Rightarrow> 'a act) \<Rightarrow> 'a act" where
  "try_except m h s = (case m s of (Inl e, s') \<Rightarrow> h e s' | (Inr x, s') \<Rightarrow> (Inr x, s'))"

definition ask :: "env \<Rightarrow> (env \<Rightarrow> cmd list \<Rightarrow> cmd \<Rightarrow> 'a) \<Rightarrow> cmd \<Rightarrow> 'a act" where
  "ask E answer c s =
     ((case raises E (issued s) c of
         Some e \<Rightarrow> Inl e
       | None \<Rightarrow> Inr (answer E (issued s) c)),
      s\<lparr>issued := issued s @ [c]\<rparr>)"

definition issue :: "env \<Rightarrow> cmd \<Rightarrow> unit act" where
  "issue E c = ask E (\<lambda>_ _ _. ()) c"

section \<open>The helpers of \<open>scrape_trade_in_prices\<close>\<close>

definition js_click :: "env \<Rightarrow> locator \<Rightarrow> unit act" where
  "js_click E element = issue E (ExecuteScript (Click element))"

definition js_check_radio :: "env \<Rightarrow> string \<Rightarrow> bool act" where
  "js_check_radio E element_id =
     try_except (ask E truthy (ExecuteScript (CheckRadioById element_id))) (\<lambda>e. ret False)"

definition js_check_checkbox :: "env \<Rightarrow> string \<Rightarrow> bool \<Rightarrow> bool act" where
  "js_check_checkbox E element_id check =
     try_except (ask E truthy (ExecuteScript (SetCheckboxById element_id check))) (\<lambda>e. ret False)"

definition condition_id_map :: "string \<Rightarrow> string option" where
  "condition_id_map =
     map_of [(''Flawless'', ''CPTS01''), (''Good'', ''CPTS02''), (''Damaged'', ''CPTS04'')]"

text \<open>
  \<open>select_screen_condition\<close>: the identifier from the mapping, then the three methods in
  turn. The second and the third method run in a \<open>try\<close> whose handler only prints, so a
  raise there counts as a falsy result.
\<close>

definition select_screen_condition :: "env \<Rightarrow> string \<Rightarrow> bool act" where
  "select_screen_condition E condition =
     (case condition_id_map condition of
        None \<Rightarrow> ret False
      | Some element_id \<Rightarrow>
          if element_id = [] then ret False
          else
            bind (js_check_radio E element_id) (\<lambda>result.
            if result then ret True
            else
              bind (try_except
                      (ask E truthy (ExecuteScript (CheckRadioByNameValue ''CPTS'' element_id)))
                      (\<lambda>e. ret False)) (\<lambda>result.
              if result then ret True
              else
                bind (try_except
                        (ask E truthy (ExecuteScript (CheckRadioByLabel condition)))
                        (\<lambda>e. ret False)) (\<lambda>result.
                if result then ret True else ret False))))"

definition issue_checkboxes :: "string list" where
  "issue_checkboxes = [''CBAT'', ''CTON'', ''CBRK'', ''CLIQ'', ''CMIS'']"

fun uncheck_all :: "env \<Rightarrow> string list \<Rightarrow> unit act" where
  "uncheck_all E [] = ret ()"
| "uncheck_all E (issue_id # rest) =
     bind (js_check_checkbox E issue_id False) (\<lambda>_. uncheck_all E rest)"

text \<open>
  \<open>fill_form\<close>. Each \<open>try\<close> block of the source gives a flag: \<open>True\<close> when the block ran
  through, \<open>False\<close> when its handler returned \<open>False\<close> from the function. The values of
  \<open>body_flawless_checked\<close> and \<open>none_checked\<close> are printed and not tested.
\<close>

definition fill_form :: "env \<Rightarrow> string \<Rightarrow> bool act" where
  "fill_form E screen_condition =
     bind (select_screen_condition E screen_condition) (\<lambda>selected.
     if \<not> selected then ret False
     else
       bind (try_except
               (bind (js_check_radio E ''CPBP01'') (\<lambda>body_flawless_checked. ret True))
               (\<lambda>e. ret False)) (\<lambda>body_done.
       if \<not> body_done then ret False
       else
         bind (try_except
                 (bind (uncheck_all E issue_checkboxes) (\<lambda>_.
                  bind (js_check_checkbox E ''CISS'' True) (\<lambda>none_checked. ret True)))
                 (\<lambda>e. ret False)) (\<lambda>issues_done.
         if \<not> issues_done then ret False else ret True)))"

definition price_selectors :: "string list" where
  "price_selectors = [''.valuationAmount'', ''h1.mb-0.green1'', ''h1.green1'', ''.price'', ''h1'']"

text \<open>
  The loop of lines 269 to 276: the first selector whose wait and text read do not raise
  gives the stripped text and ends the loop; \<open>None\<close> when every selector raised.
\<close>

fun find_price_text :: "env \<Rightarrow> string list \<Rightarrow> string option act" where
  "find_price_text E [] = ret None"
| "find_price_text E (selector # rest) =
     bind (try_except
             (bind (ask E text_of (WaitVisibleText (ByCssSelector selector))) (\<lambda>t.
              ret (Some (strip t))))
             (\<lambda>e. ret None)) (\<lambda>found.
     case found of
       Some price_text \<Rightarrow> ret (Some price_text)
     | None \<Rightarrow> find_price_text E rest)"

definition extract_price :: "env \<Rightarrow> string act" where
  "extract_price E =
     try_except
       (bind (find_price_text E price_selectors) (\<lambda>found.
        bind (case found of
                None \<Rightarrow> ask E text_of (ExecuteScript ScanForPrice)
              | Some t \<Rightarrow>
                  if t = [] then ask E text_of (ExecuteScript ScanForPrice) else ret t)
          (\<lambda>price_text. ret (parse_price price_text))))
       (\<lambda>e. ret [])"

definition submit_button :: locator where
  "submit_button = ByCssSelector (''input.btn.btn-success[type='' @ [CHR 0x27] @ ''submit'' @ [CHR 0x27] @ '']'')"

definition submit_form_and_get_price :: "env \<Rightarrow> string act" where
  "submit_form_and_get_price E =
     try_except
       (bind (issue E (FindElement submit_button)) (\<lambda>_.
        bind (js_click E submit_button) (\<lambda>_.
        extract_price E)))
       (\<lambda>e. ret [])"

section \<open>The main loop of \<open>scrape_trade_in_prices\<close>\<close>

text \<open>
  The parameters of the function. \<open>delay\<close> (seconds) is never read: every pause of the
  source is \<open>time.sleep(1)\<close>.
\<close>

record args =
  output_excel_path :: string
  n_scrape :: "int option"
  headless :: bool
  delay :: nat

definition URL :: string where
  "URL = ''https://www.maxis.com.my/en/devices/trade-in/''"

definition screen_conditions :: "string list" where
  "screen_conditions = [''Flawless'', ''Good'', ''Damaged'']"

definition brands :: "string list" where
  "brands = [''Apple'', ''Samsung'']"

text \<open>
  The dictionary \<open>defaults\<close> of line 84. It has no entry for the six columns that
  \<open>result.update\<close> sets; they are empty here and always overwritten.
\<close>

definition defaults :: "env \<Rightarrow> valuation" where
  "defaults E =
     \<lparr>Country = ''Malaysia'', Device_Type = [], Brand = [], Model = [], Capacity = [],
      Color = [], Launch_RRP = [], Condition = [], Value_Type = ''Trade-In'',
      Currency = [], Value = [], Source = ''MY_RV_Source5'', Updated_on = today E,
      Updated_by = [], Comments = []\<rparr>"

text \<open>Lines 510 to 523: the result entry of one work unit.\<close>

definition new_result :: "env \<Rightarrow> string \<Rightarrow> string \<Rightarrow> string \<Rightarrow> string \<Rightarrow> valuation" where
  "new_result E brand model condition price =
     (let result = (defaults E)
            \<lparr>Device_Type :=
               (if contains ''iPhone'' model \<or> contains ''Galaxy'' model
                then ''Smartphone'' else ''Tablet''),
             Brand := brand, Model := model, Condition := condition,
             Currency := ''MYR'', Value := price\<rparr>
      in case capacity_search model of
           Some g \<Rightarrow> result\<lparr>Capacity := remove_spaces g\<rparr>
         | None \<Rightarrow> result)"

definition append_result :: "valuation \<Rightarrow> unit act" where
  "append_result r s = (Inr (), s\<lparr>results_df := results_df s @ [r]\<rparr>)"

definition with_results :: "(valuation list \<Rightarrow> 'a act) \<Rightarrow> 'a act" where
  "with_results k s = k (results_df s) s"

text \<open>
  Lines 343 to 364 and again 439 to 452: wait for an iframe and switch into the first
  one. \<open>False\<close> stands for the \<open>continue\<close> of the enclosing loop.
\<close>

definition switch_to_iframe :: "env \<Rightarrow> bool act" where
  "switch_to_iframe E =
     try_except
       (bind (issue E (WaitPresence (ByTagName ''iframe''))) (\<lambda>_.
        bind (ask E count_of (FindElements (ByTagName ''iframe''))) (\<lambda>n.
        if n = 0 then ret False
        else bind (issue E (SwitchToFrame 0)) (\<lambda>_. ret True))))
       (\<lambda>e. ret False)"

text \<open>\<open>option.text != "Select One" and option.text.strip() != ""\<close>\<close>

definition is_listed :: "string \<Rightarrow> bool" where
  "is_listed t = (t \<noteq> ''Select One'' \<and> strip t \<noteq> [])"

text \<open>\<open>brand.lower() in t.lower() or t.lower() in brand.lower()\<close>\<close>

definition brand_matches :: "string \<Rightarrow> string \<Rightarrow> bool" where
  "brand_matches brand t =
     (contains (lower brand) (lower t) \<or> contains (lower t) (lower brand))"

text \<open>
  Lines 389 to 396 and 471 to 476: \<open>if brand_match:\<close> selects by the matched text, and a
  \<open>brand_match\<close> that is \<open>None\<close> or empty falls back to the index.
\<close>

definition select_brand :: "env \<Rightarrow> string \<Rightarrow> string option \<Rightarrow> unit act" where
  "select_brand E brand brand_match =
     (case brand_match of
        Some t \<Rightarrow>
          if t \<noteq> [] then issue E (SelectByVisibleText ''manufacturer'' t)
          else issue E (SelectByIndex ''manufacturer'' (if brand = ''Apple'' then 1 else 2))
      | None \<Rightarrow> issue E (SelectByIndex ''manufacturer'' (if brand = ''Apple'' then 1 else 2)))"

text \<open>Python's \<open>xs[:n]\<close>; a negative \<open>n\<close> counts from the end.\<close>

definition slice_to :: "int \<Rightarrow> 'a list \<Rightarrow> 'a list" where
  "slice_to n xs = (if 0 \<le> n then take (nat n) xs else take (nat (int (length xs) + n)) xs)"

text \<open>
  Lines 367 to 422: select the brand and read its models; \<open>None\<close> stands for the
  \<open>continue\<close> of the handler. The texts of the options are read in one command.
\<close>

definition get_models :: "args \<Rightarrow> env \<Rightarrow> string \<Rightarrow> string list option act" where
  "get_models A E brand =
     try_except
       (bind (issue E (WaitPresence (ById ''manufacturer''))) (\<lambda>_.
        bind (ask E texts_of (SelectOptions ''manufacturer'')) (\<lambda>options.
        bind (select_brand E brand
                (find (brand_matches brand) (map strip (filter is_listed options)))) (\<lambda>_.
        bind (issue E (WaitPresence (ById ''tinProduct''))) (\<lambda>_.
        bind (ask E texts_of (SelectOptions ''tinProduct'')) (\<lambda>options.
        ret (Some (case n_scrape A of
                     Some n \<Rightarrow> slice_to n (filter is_listed options)
                   | None \<Rightarrow> filter is_listed options))))))))
       (\<lambda>e. ret None)"

definition next_button :: locator where
  "next_button = ByCssSelector ''a.btn.btn-success''"

text \<open>Lines 530 to 537: the length modulo 1 is always 0, so the \<open>else\<close> never runs.\<close>

definition save_progress :: "args \<Rightarrow> env \<Rightarrow> unit act" where
  "save_progress A E =
     with_results (\<lambda>df.
       if length df mod 1 = 0
       then try_except (issue E (ToExcel (output_excel_path A))) (\<lambda>save_error. ret ())
       else ret ())"

text \<open>
  Lines 455 to 502: select the brand (by matching text, else by index; the inner bare
  \<open>except\<close> falls back to the index too), select the model and click Next.
\<close>

definition select_model_and_next :: "env \<Rightarrow> string \<Rightarrow> string \<Rightarrow> unit act" where
  "select_model_and_next E brand model =
     bind (issue E (WaitPresence (ById ''manufacturer''))) (\<lambda>_.
     bind (try_except
             (bind (ask E texts_of (SelectOptions ''manufacturer'')) (\<lambda>options.
              select_brand E brand (find (brand_matches brand) options)))
             (\<lambda>e. issue E (SelectByIndex ''manufacturer'' (if brand = ''Apple'' then 1 else 2))))
       (\<lambda>_.
     bind (issue E (WaitPresence (ById ''tinProduct''))) (\<lambda>_.
     bind (issue E (SelectByVisibleText ''tinProduct'' model)) (\<lambda>_.
     bind (issue E (WaitClickable next_button)) (\<lambda>_.
     bind (issue E (ExecuteScript (ScrollIntoView next_button))) (\<lambda>_.
     js_click E next_button))))))"

text \<open>
  Lines 504 to 537: fill the form; when \<open>fill_form\<close> returns \<open>True\<close>, submit and append
  the result entry; then save the progress in either case.
\<close>

definition record_quote :: "args \<Rightarrow> env \<Rightarrow> string \<Rightarrow> string \<Rightarrow> string \<Rightarrow> unit act" where
  "record_quote A E brand model condition =
     bind (fill_form E condition) (\<lambda>filled.
     bind (if filled
           then bind (submit_form_and_get_price E) (\<lambda>price.
                append_result (new_result E brand model condition price))
           else ret ()) (\<lambda>_.
     save_progress A E))"

text \<open>The body of the \<open>try\<close> of lines 455 to 537.\<close>

definition select_fill_submit :: "args \<Rightarrow> env \<Rightarrow> string \<Rightarrow> string \<Rightarrow> string \<Rightarrow> unit act" where
  "select_fill_submit A E brand model condition =
     bind (select_model_and_next E brand model) (\<lambda>_.
     record_quote A E brand model condition)"

datatype loop_ctl = Continue | Break

text \<open>
  The handler of lines 539 to 553: probe \<open>driver.current_url\<close>; when the probe raises,
  quit, set up a new driver and \<open>break\<close>; else \<open>continue\<close>.
\<close>

definition recover :: "args \<Rightarrow> env \<Rightarrow> loop_ctl act" where
  "recover A E =
     bind (try_except (bind (issue E CurrentUrl) (\<lambda>_. ret True)) (\<lambda>e. ret False)) (\<lambda>responsive.
     if responsive then ret Continue
     else
       bind (issue E Quit) (\<lambda>_.
       bind (issue E (SetupDriver (headless A))) (\<lambda>_.
       ret Break)))"

text \<open>One pass of the loop over the conditions, lines 430 to 553.\<close>

definition work_unit :: "args \<Rightarrow> env \<Rightarrow> string \<Rightarrow> string \<Rightarrow> string \<Rightarrow> loop_ctl act" where
  "work_unit A E brand model condition =
     bind (issue E (Get URL)) (\<lambda>_.
     bind (switch_to_iframe E) (\<lambda>switched.
     if \<not> switched then ret Continue
     else
       try_except
         (bind (select_fill_submit A E brand model condition) (\<lambda>_. ret Continue))
         (\<lambda>e. recover A E)))"

fun for_conditions :: "args \<Rightarrow> env \<Rightarrow> string \<Rightarrow> string \<Rightarrow> string list \<Rightarrow> unit act" where
  "for_conditions A E brand model [] = ret ()"
| "for_conditions A E brand model (condition # rest) =
     bind (work_unit A E brand model condition) (\<lambda>ctl.
     case ctl of
       Continue \<Rightarrow> for_conditions A E brand model rest
     | Break \<Rightarrow> ret ())"

fun for_models :: "args \<Rightarrow> env \<Rightarrow> string \<Rightarrow> string list \<Rightarrow> unit act" where
  "for_models A E brand [] = ret ()"
| "for_models A E brand (model # rest) =
     bind (for_conditions A E brand model screen_conditions) (\<lambda>_.
     for_models A E brand rest)"

text \<open>One pass of the loop over the brands, lines 330 to 553.\<close>

definition process_brand :: "args \<Rightarrow> env \<Rightarrow> string \<Rightarrow> unit act" where
  "process_brand A E brand =
     bind (issue E (Get URL)) (\<lambda>_.
     bind (switch_to_iframe E) (\<lambda>switched.
     if \<not> switched then ret ()
     else
       bind (get_models A E brand) (\<lambda>models.
       case models of
         None \<Rightarrow> ret ()
       | Some ms \<Rightarrow> for_models A E brand ms)))"

fun for_brands :: "args \<Rightarrow> env \<Rightarrow> string list \<Rightarrow> unit act" where
  "for_brands A E [] = ret ()"
| "for_brands A E (brand # rest) =
     bind (process_brand A E brand) (\<lambda>_. for_brands A E rest)"

text \<open>The \<open>finally\<close> block, lines 558 to 577; its \<open>return\<close> is the value of the run.\<close>

definition save_and_close :: "args \<Rightarrow> env \<Rightarrow> bool act" where
  "save_and_close A E =
     bind (try_except
             (with_results (\<lambda>df.
                if df \<noteq> []
                then bind (issue E (MakeDirs (output_excel_path A))) (\<lambda>_.
                     issue E (ToExcel (output_excel_path A)))
                else ret ()))
             (\<lambda>e. ret ())) (\<lambda>_.
     bind (try_except (issue E Quit) (\<lambda>e. ret ())) (\<lambda>_.
     with_results (\<lambda>df. ret (df \<noteq> []))))"

definition clear_results :: "unit act" where
  "clear_results s = (Inr (), s\<lparr>results_df := []\<rparr>)"

text \<open>
  \<open>scrape_trade_in_prices\<close>: the driver is set up outside the \<open>try\<close> (line 69), the data
  frame starts empty (line 77), and the \<open>except\<close> of line 555 swallows what the loop
  raises.
\<close>

definition scrape_trade_in_prices :: "args \<Rightarrow> env \<Rightarrow> bool act" where
  "scrape_trade_in_prices A E =
     bind (issue E (SetupDriver (headless A))) (\<lambda>_.
     bind clear_results (\<lambda>_.
     bind (try_except (for_brands A E brands) (\<lambda>e. ret ())) (\<lambda>_.
     save_and_close A E)))"

definition start :: st where
  "start = \<lparr>issued = [], results_df = []\<rparr>"

section \<open>Notions and sample environments for the proofs\<close>

text \<open>\<open>returns m\<close>: from every state, \<open>m\<close> ends with a value and not with an exception.\<close>

definition returns :: "'a act \<Rightarrow> bool" where
  "returns m = (\<forall>s. \<exists>x. fst (m s) = Inr x)"

text \<open>
  \<open>keeps m\<close>: \<open>m\<close> leaves the results as they are. \<open>grows P m\<close>: \<open>m\<close> only appends to the
  results, and every appended row satisfies \<open>P\<close>. \<open>emits Q m\<close>: \<open>m\<close> only appends to the
  issued commands, and every appended command satisfies \<open>Q\<close>.
\<close>

definition keeps :: "'a act \<Rightarrow> bool" where
  "keeps m = (\<forall>s. results_df (snd (m s)) = results_df s)"

definition grows :: "(valuation \<Rightarrow> bool) \<Rightarrow> 'a act \<Rightarrow> bool" where
  "grows P m = (\<forall>s. \<exists>rs. results_df (snd (m s)) = results_df s @ rs \<and> list_all P rs)"

definition emits :: "(cmd \<Rightarrow> bool) \<Rightarrow> 'a act \<Rightarrow> bool" where
  "emits Q m = (\<forall>s. \<exists>cs. issued (snd (m s)) = issued s @ cs \<and> list_all Q cs)"

text \<open>The commands that end or start a browser session.\<close>

fun is_session_cmd :: "cmd \<Rightarrow> bool" where
  "is_session_cmd (SetupDriver _) = True"
| "is_session_cmd Quit = True"
| "is_session_cmd _ = False"

text \<open>
  An environment in which nothing raises and every script reports success; one in which
  only the screen-condition radio \<open>CPTS01\<close> exists; and one in which every command raises.
\<close>

definition all_ok_env :: env where
  "all_ok_env =
     \<lparr>raises = (\<lambda>_ _. None), truthy = (\<lambda>_ _. True), text_of = (\<lambda>_ _. ''RM 250''),
      texts_of = (\<lambda>_ c. if c = SelectOptions ''manufacturer''
                          then [''Select One'', ''Apple'', ''Samsung'']
                          else [''Select One'', ''iPhone 13 128GB'']),
      count_of = (\<lambda>_ _. 1), today = ''2025-01-01''\<rparr>"

definition screen_only_env :: env where
  "screen_only_env = all_ok_env\<lparr>truthy := (\<lambda>_ c. c = ExecuteScript (CheckRadioById ''CPTS01''))\<rparr>"

definition dead_env :: env where
  "dead_env = all_ok_env\<lparr>raises := (\<lambda>_ _. Some WebDriverException), text_of := (\<lambda>_ _. [])\<rparr>"

text \<open>
  Sample arguments (one model per brand), and further environments: one whose page has
  no radio control at all, one whose brand dropdown lists neither brand, one whose only
  model is no phone by name, and one whose session is dead from the \<open>n\<close>-th command on
  until a new driver is set up.
\<close>

definition sample_args :: args where
  "sample_args = \<lparr>output_excel_path = ''MY_RV_Source5.xlsx'', n_scrape = Some 1,
                   headless = True, delay = 1\<rparr>"

definition no_radio_env :: env where
  "no_radio_env = all_ok_env\<lparr>truthy := (\<lambda>_ _. False)\<rparr>"

definition no_brand_env :: env where
  "no_brand_env = all_ok_env\<lparr>texts_of := (\<lambda>_ c. if c = SelectOptions ''manufacturer''
                          then [''Select One'', ''Huawei'', ''Xiaomi'']
                          else [''Select One'', ''Mate 60 256GB''])\<rparr>"

definition pixel_env :: env where
  "pixel_env = all_ok_env\<lparr>texts_of := (\<lambda>_ c. if c = SelectOptions ''manufacturer''
                          then [''Select One'', ''Apple'', ''Samsung'']
                          else [''Select One'', ''Pixel 8 256GB''])\<rparr>"

definition dies_after :: "nat \<Rightarrow> env" where
  "dies_after n = all_ok_env\<lparr>raises := (\<lambda>h c.
      if \<not> is_session_cmd c \<and> n \<le> length h \<and> SetupDriver True \<notin> set (drop n h)
      then Some WebDriverException else None)\<rparr>"

text \<open>
  Environments for the price extraction: one whose visible price text is \<open>t\<close> while the
  document scan would find \<open>RM 999\<close>, and one whose visible text is blank and whose scan
  raises.
\<close>

definition plain_text_env :: "string \<Rightarrow> env" where
  "plain_text_env t =
     all_ok_env\<lparr>text_of := (\<lambda>_ c. if c = ExecuteScript ScanForPrice then ''RM 999'' else t)\<rparr>"

definition blank_then_scan_raises_env :: env where
  "blank_then_scan_raises_env =
     all_ok_env\<lparr>text_of := (\<lambda>_ _. []),
                 raises := (\<lambda>_ c. if c = ExecuteScript ScanForPrice
                                   then Some WebDriverException else None)\<rparr>"

section \<open>Basic facts\<close>

lemmas str_defs = is_digit_def is_space_def starts_with_def price_match_at_def parse_price_def

lemma bind_ret [simp]: "bind (ret x) k = k x"
  by (rule ext) (simp add: bind_def ret_def)

lemma try_except_ret [simp]: "try_except (ret x) h = ret x"
  by (rule ext) (simp add: try_except_def ret_def)

lemma ask_state [simp]: "snd (ask E f c s) = s\<lparr>issued := issued s @ [c]\<rparr>"
  by (simp add: ask_def)

lemma js_check_radio_eq:
  "js_check_radio E i s =
     (Inr (raises E (issued s) (ExecuteScript (CheckRadioById i)) = None
            \<and> truthy E (issued s) (ExecuteScript (CheckRadioById i))),
      s\<lparr>issued := issued s @ [ExecuteScript (CheckRadioById i)]\<rparr>)"
  by (simp add: js_check_radio_def try_except_def ask_def ret_def split: option.splits)

lemma js_check_checkbox_eq:
  "js_check_checkbox E i b s =
     (Inr (raises E (issued s) (ExecuteScript (SetCheckboxById i b)) = None
            \<and> truthy E (issued s) (ExecuteScript (SetCheckboxById i b))),
      s\<lparr>issued := issued s @ [ExecuteScript (SetCheckboxById i b)]\<rparr>)"
  by (simp add: js_check_checkbox_def try_except_def ask_def ret_def split: option.splits)

lemma uncheck_all_eq:
  "uncheck_all E ids s = (Inr (), s\<lparr>issued := issued s @ map (\<lambda>i. ExecuteScript (SetCheckboxById i False)) ids\<rparr>)"
  by (induction ids arbitrary: s) (simp_all add: ret_def bind_def js_check_checkbox_eq)

lemma returns_ret [simp, intro!]: "returns (ret x)"
  by (simp add: returns_def ret_def)

lemma returns_bind [intro!]:
  assumes "returns m" and "\<And>x. returns (k x)"
  shows "returns (bind m k)"
  unfolding returns_def
proof
  fix s
  obtain x where x: "fst (m s) = Inr x" using assms(1) by (auto simp: returns_def)
  obtain y where "fst (k x (snd (m s))) = Inr y" using assms(2) by (auto simp: returns_def)
  with x show "\<exists>y. fst (bind m k s) = Inr y"
    by (cases "m s") (simp add: bind_def)
qed

lemma returns_try [intro!]:
  assumes "\<And>e. returns (h e)"
  shows "returns (try_except m h)"
  unfolding returns_def
proof
  fix s
  show "\<exists>y. fst (try_except m h s) = Inr y"
  proof (cases "m s")
    case (Pair r s')
    show ?thesis
    proof (cases r)
      case (Inl e)
      obtain y where "fst (h e s') = Inr y" using assms by (auto simp: returns_def)
      with Pair Inl show ?thesis by (simp add: try_except_def)
    next
      case (Inr x)
      with Pair show ?thesis by (simp add: try_except_def)
    qed
  qed
qed

lemma returns_if [intro!]: "(b \<Longrightarrow> returns m) \<Longrightarrow> (\<not> b \<Longrightarrow> returns n) \<Longrightarrow> returns (if b then m else n)"
  by simp

lemma returns_with_results [intro!]: "(\<And>df. returns (k df)) \<Longrightarrow> returns (with_results k)"
  by (simp add: returns_def with_results_def)

lemma returns_js_check_radio [intro!]: "returns (js_check_radio E i)"
  unfolding js_check_radio_def by (rule returns_try) simp

lemma returns_js_check_checkbox [intro!]: "returns (js_check_checkbox E i b)"
  unfolding js_check_checkbox_def by (rule returns_try) simp

lemma returns_select_screen_condition [intro!]: "returns (select_screen_condition E c)"
  unfolding select_screen_condition_def by (auto split: option.splits)

lemma returns_uncheck_all [intro!]: "returns (uncheck_all E ids)"
  by (induction ids) auto

lemma returns_fill_form [intro!]: "returns (fill_form E c)"
  unfolding fill_form_def by (intro returns_bind returns_if returns_ret returns_try returns_select_screen_condition)

lemma returns_extract_price [intro!]: "returns (extract_price E)"
  unfolding extract_price_def by (rule returns_try) simp

lemma returns_submit [intro!]: "returns (submit_form_and_get_price E)"
  unfolding submit_form_and_get_price_def by (rule returns_try) simp

lemma fill_form_after_screen:
  assumes "select_screen_condition E c s = (Inr True, s1)"
  shows "fill_form E c s =
     (Inr True, s1\<lparr>issued := issued s1 @ ExecuteScript (CheckRadioById ''CPBP01'')
         # map (\<lambda>i. ExecuteScript (SetCheckboxById i False)) issue_checkboxes
         @ [ExecuteScript (SetCheckboxById ''CISS'' True)]\<rparr>)"
  using assms
  by (simp add: fill_form_def bind_def try_except_def ret_def js_check_radio_eq
      js_check_checkbox_eq uncheck_all_eq)

lemma fill_form_screen_failed:
  assumes "select_screen_condition E c s = (Inr False, s1)"
  shows "fill_form E c s = (Inr False, s1)"
  using assms by (simp add: fill_form_def bind_def ret_def)

lemma unmapped:
  assumes "c \<noteq> ''Flawless''" "c \<noteq> ''Good''" "c \<noteq> ''Damaged''"
  shows "select_screen_condition E c s = (Inr False, s)"
  using assms by (simp add: select_screen_condition_def condition_id_map_def ret_def)

section \<open>Invariants of the script\<close>

subsection \<open>What a piece of the script leaves unchanged\<close>

lemma snd_bind:
  "snd (bind m k s) = (case fst (m s) of Inl e \<Rightarrow> snd (m s) | Inr x \<Rightarrow> snd (k x (snd (m s))))"
  by (cases "m s") (simp add: bind_def split: sum.splits)

lemma snd_try_except:
  "snd (try_except m h s) = (case fst (m s) of Inl e \<Rightarrow> snd (h e (snd (m s))) | Inr x \<Rightarrow> snd (m s))"
  by (cases "m s") (simp add: try_except_def split: sum.splits)

lemma keeps_ret [simp]: "keeps (ret x)"
  by (simp add: keeps_def ret_def)

lemma keeps_ask [simp]: "keeps (ask E f c)"
  by (simp add: keeps_def)

lemma keeps_issue [simp]: "keeps (issue E c)"
  by (simp add: issue_def)

lemma keeps_bind: "keeps m \<Longrightarrow> (\<And>x. keeps (k x)) \<Longrightarrow> keeps (bind m k)"
  by (simp add: keeps_def snd_bind split: sum.splits)

lemma keeps_try_except: "keeps m \<Longrightarrow> (\<And>e. keeps (h e)) \<Longrightarrow> keeps (try_except m h)"
  by (simp add: keeps_def snd_try_except split: sum.splits)

lemma keeps_with_results: "(\<And>df. keeps (k df)) \<Longrightarrow> keeps (with_results k)"
  by (simp add: keeps_def with_results_def)

lemmas keeps_intros = keeps_bind keeps_try_except keeps_with_results

lemma keeps_js_click [simp]: "keeps (js_click E l)"
  by (simp add: js_click_def)

lemma keeps_js_check_radio [simp]: "keeps (js_check_radio E i)"
  by (simp add: js_check_radio_def keeps_intros)

lemma keeps_js_check_checkbox [simp]: "keeps (js_check_checkbox E i b)"
  by (simp add: js_check_checkbox_def keeps_intros)

lemma keeps_select_screen_condition [simp]: "keeps (select_screen_condition E c)"
  by (simp add: select_screen_condition_def keeps_intros split: option.splits)

lemma keeps_uncheck_all [simp]: "keeps (uncheck_all E ids)"
  by (induction ids) (simp_all add: keeps_intros)

lemma keeps_fill_form [simp]: "keeps (fill_form E c)"
  by (simp add: fill_form_def keeps_intros)

lemma keeps_find_price_text [simp]: "keeps (find_price_text E sels)"
  by (induction sels) (simp_all add: keeps_intros split: option.splits)

lemma keeps_extract_price [simp]: "keeps (extract_price E)"
  by (simp add: extract_price_def keeps_intros split: option.splits)

lemma keeps_submit [simp]: "keeps (submit_form_and_get_price E)"
  by (simp add: submit_form_and_get_price_def keeps_intros)

lemma keeps_switch_to_iframe [simp]: "keeps (switch_to_iframe E)"
  by (simp add: switch_to_iframe_def keeps_intros)

lemma keeps_select_brand [simp]: "keeps (select_brand E b bm)"
  by (simp add: select_brand_def split: option.splits)

lemma keeps_get_models [simp]: "keeps (get_models A E b)"
  by (simp add: get_models_def keeps_intros)

lemma keeps_select_model_and_next [simp]: "keeps (select_model_and_next E b m)"
  by (simp add: select_model_and_next_def keeps_intros)

lemma keeps_save_progress [simp]: "keeps (save_progress A E)"
  by (simp add: save_progress_def keeps_intros)

lemma keeps_recover [simp]: "keeps (recover A E)"
  by (simp add: recover_def keeps_intros)

lemma keepsD: "keeps m \<Longrightarrow> results_df (snd (m s)) = results_df s"
  by (simp add: keeps_def)

lemma returnsD: "returns m \<Longrightarrow> \<exists>x s'. m s = (Inr x, s')"
  by (cases "m s") (auto simp: returns_def dest: spec [of _ s])

lemma returns_save_progress: "returns (save_progress A E)"
  unfolding save_progress_def
  by (intro returns_with_results returns_if returns_try returns_ret)

lemma returns_append_result: "returns (append_result r)"
  by (simp add: returns_def append_result_def)

lemma returns_record_quote: "returns (record_quote A E b m c)"
  unfolding record_quote_def
  by (intro returns_bind returns_fill_form returns_if returns_submit returns_append_result
      returns_ret returns_save_progress)

subsection \<open>Rows are only appended\<close>

lemma grows_keeps: "keeps m \<Longrightarrow> grows P m"
  by (simp add: keeps_def grows_def)

lemma grows_bind:
  assumes "grows P m" and "\<And>x. grows P (k x)"
  shows "grows P (bind m k)"
  unfolding grows_def
proof
  fix s
  obtain rs where rs: "results_df (snd (m s)) = results_df s @ rs" "list_all P rs"
    using assms(1) by (auto simp: grows_def)
  show "\<exists>rs. results_df (snd (bind m k s)) = results_df s @ rs \<and> list_all P rs"
  proof (cases "fst (m s)")
    case (Inl e)
    with rs show ?thesis by (auto simp: snd_bind)
  next
    case (Inr x)
    obtain rs' where rs': "results_df (snd (k x (snd (m s)))) = results_df (snd (m s)) @ rs'"
      "list_all P rs'"
      using assms(2) [of x] by (auto simp: grows_def)
    have "results_df (snd (bind m k s)) = results_df s @ (rs @ rs')"
      using Inr rs rs' by (simp add: snd_bind)
    moreover have "list_all P (rs @ rs')" using rs rs' by simp
    ultimately show ?thesis by blast
  qed
qed

lemma grows_try_except:
  assumes "grows P m" and "\<And>e. grows P (h e)"
  shows "grows P (try_except m h)"
  unfolding grows_def
proof
  fix s
  obtain rs where rs: "results_df (snd (m s)) = results_df s @ rs" "list_all P rs"
    using assms(1) by (auto simp: grows_def)
  show "\<exists>rs. results_df (snd (try_except m h s)) = results_df s @ rs \<and> list_all P rs"
  proof (cases "fst (m s)")
    case (Inr x)
    with rs show ?thesis by (auto simp: snd_try_except)
  next
    case (Inl e)
    obtain rs' where rs': "results_df (snd (h e (snd (m s)))) = results_df (snd (m s)) @ rs'"
      "list_all P rs'"
      using assms(2) [of e] by (auto simp: grows_def)
    have "results_df (snd (try_except m h s)) = results_df s @ (rs @ rs')"
      using Inl rs rs' by (simp add: snd_try_except)
    moreover have "list_all P (rs @ rs')" using rs rs' by simp
    ultimately show ?thesis by blast
  qed
qed

lemma grows_append_result: "P r \<Longrightarrow> grows P (append_result r)"
  by (simp add: grows_def append_result_def)

lemma grows_if: "grows P m \<Longrightarrow> grows P n \<Longrightarrow> grows P (if b then m else n)"
  by simp

lemmas grows_intros = grows_bind grows_try_except grows_if grows_append_result

lemma grows_record_quote:
  assumes "\<And>p. P (new_result E b m c p)"
  shows "grows P (record_quote A E b m c)"
  unfolding record_quote_def
  by (intro grows_intros) (simp_all add: grows_keeps assms)

lemma grows_work_unit:
  assumes "\<And>p. P (new_result E b m c p)"
  shows "grows P (work_unit A E b m c)"
  unfolding work_unit_def select_fill_submit_def
  by (intro grows_intros grows_record_quote) (simp_all add: grows_keeps assms)

lemma bind_InrD:
  assumes "bind m k s = (Inr y, s')"
  shows "\<exists>x s1. m s = (Inr x, s1) \<and> k x s1 = (Inr y, s')"
proof (cases "m s")
  case (Pair r s1)
  with assms show ?thesis by (cases r) (simp_all add: bind_def)
qed

lemma try_except_InrD:
  assumes "try_except m h s = (Inr y, s')"
  shows "m s = (Inr y, s') \<or> (\<exists>e s1. m s = (Inl e, s1) \<and> h e s1 = (Inr y, s'))"
proof (cases "m s")
  case (Pair r s1)
  with assms show ?thesis by (cases r) (simp_all add: try_except_def)
qed

lemma set_slice_to: "set (slice_to n xs) \<subseteq> set xs"
  by (auto simp: slice_to_def dest: in_set_takeD)

lemma get_models_listed:
  assumes "get_models A E b s = (Inr (Some ms), s')"
  shows "\<forall>m \<in> set ms. is_listed m"
proof -
  let ?body = "bind (issue E (WaitPresence (ById ''manufacturer''))) (\<lambda>_.
        bind (ask E texts_of (SelectOptions ''manufacturer'')) (\<lambda>options.
        bind (select_brand E b
                (find (brand_matches b) (map strip (filter is_listed options)))) (\<lambda>_.
        bind (issue E (WaitPresence (ById ''tinProduct''))) (\<lambda>_.
        bind (ask E texts_of (SelectOptions ''tinProduct'')) (\<lambda>options.
        ret (Some (case n_scrape A of
                     Some n \<Rightarrow> slice_to n (filter is_listed options)
                   | None \<Rightarrow> filter is_listed options)))))))"
  have "try_except ?body (\<lambda>e. ret None) s = (Inr (Some ms), s')"
    using assms by (simp add: get_models_def)
  then have "?body s = (Inr (Some ms), s')"
    by (auto dest!: try_except_InrD simp: ret_def)
  then obtain options where
    "ms = (case n_scrape A of Some n \<Rightarrow> slice_to n (filter is_listed options)
           | None \<Rightarrow> filter is_listed options)"
    by (auto dest!: bind_InrD simp: ret_def)
  then show ?thesis
    using set_slice_to [of _ "filter is_listed options"]
    by (auto split: option.splits)
qed

lemma grows_bind_post:
  assumes "grows P m" and "\<And>x s s'. m s = (Inr x, s') \<Longrightarrow> grows P (k x)"
  shows "grows P (bind m k)"
  unfolding grows_def
proof
  fix s
  obtain rs where rs: "results_df (snd (m s)) = results_df s @ rs" "list_all P rs"
    using assms(1) by (auto simp: grows_def)
  show "\<exists>rs. results_df (snd (bind m k s)) = results_df s @ rs \<and> list_all P rs"
  proof (cases "m s")
    case (Pair r s1)
    show ?thesis
    proof (cases r)
      case (Inl e)
      with Pair rs show ?thesis by (auto simp: bind_def)
    next
      case (Inr x)
      have "grows P (k x)" using assms(2) Pair Inr by blast
      then obtain rs' where rs': "results_df (snd (k x s1)) = results_df s1 @ rs'"
        "list_all P rs'"
        by (auto simp: grows_def)
      have "results_df (snd (bind m k s)) = results_df s @ (rs @ rs')"
        using Pair Inr rs rs' by (simp add: bind_def)
      moreover have "list_all P (rs @ rs')" using rs rs' by simp
      ultimately show ?thesis by blast
    qed
  qed
qed

lemma grows_conditions_in:
  assumes "\<And>c p. c \<in> set cs \<Longrightarrow> P (new_result E b m c p)"
  shows "grows P (for_conditions A E b m cs)"
  using assms
proof (induction cs)
  case Nil
  show ?case by (simp add: grows_keeps)
next
  case (Cons c cs)
  have "grows P (for_conditions A E b m cs)"
    using Cons by simp
  then have "grows P (case ctl of Continue \<Rightarrow> for_conditions A E b m cs | Break \<Rightarrow> ret ())"
    for ctl
    by (cases ctl) (simp_all add: grows_keeps)
  then show ?case
    using Cons.prems by (simp add: grows_bind grows_work_unit)
qed

lemma grows_models_in:
  assumes "\<And>m c p. m \<in> set ms \<Longrightarrow> c \<in> set screen_conditions \<Longrightarrow> P (new_result E b m c p)"
  shows "grows P (for_models A E b ms)"
  using assms
proof (induction ms)
  case Nil
  show ?case by (simp add: grows_keeps)
next
  case (Cons m ms)
  have "grows P (for_models A E b ms)" using Cons by simp
  moreover have "grows P (for_conditions A E b m screen_conditions)"
    using Cons.prems by (intro grows_conditions_in) simp
  ultimately show ?case
    by (simp add: grows_bind)
qed

lemma grows_brand_in:
  assumes "\<And>m c p. is_listed m \<Longrightarrow> c \<in> set screen_conditions \<Longrightarrow> P (new_result E b m c p)"
  shows "grows P (process_brand A E b)"
proof -
  have "grows P (case models of None \<Rightarrow> ret () | Some ms \<Rightarrow> for_models A E b ms)"
    if "get_models A E b s = (Inr models, s')" for models s s'
  proof (cases models)
    case None
    then show ?thesis by (simp add: grows_keeps)
  next
    case (Some ms)
    then have "\<forall>m \<in> set ms. is_listed m"
      using that get_models_listed by blast
    then show ?thesis
      using Some assms by (simp add: grows_models_in)
  qed
  then have g: "grows P (bind (get_models A E b) (\<lambda>models.
       case models of None \<Rightarrow> ret () | Some ms \<Rightarrow> for_models A E b ms))"
    using grows_keeps [OF keeps_get_models, of P A E b]
    by (rule grows_bind_post [rotated])
  show ?thesis
    unfolding process_brand_def
    by (intro grows_bind grows_if g) (simp_all add: grows_keeps)
qed

lemma grows_brands_in:
  assumes "\<And>b m c p. b \<in> set bs \<Longrightarrow> is_listed m \<Longrightarrow> c \<in> set screen_conditions
             \<Longrightarrow> P (new_result E b m c p)"
  shows "grows P (for_brands A E bs)"
  using assms
proof (induction bs)
  case Nil
  show ?case by (simp add: grows_keeps)
next
  case (Cons b bs)
  have "grows P (for_brands A E bs)" using Cons by simp
  moreover have "grows P (process_brand A E b)"
    using Cons.prems by (intro grows_brand_in) simp
  ultimately show ?case
    by (simp add: grows_bind)
qed

lemma keeps_save_and_close [simp]: "keeps (save_and_close A E)"
  by (simp add: save_and_close_def keeps_intros)

lemma new_result_fields:
  "Model (new_result E b m c p) = m"
  "Brand (new_result E b m c p) = b"
  "Condition (new_result E b m c p) = c"
  "Value (new_result E b m c p) = p"
  "Device_Type (new_result E b m c p) =
     (if contains ''iPhone'' m \<or> contains ''Galaxy'' m then ''Smartphone'' else ''Tablet'')"
  by (simp_all add: new_result_def defaults_def Let_def split: option.splits)

lemma new_result_row:
  "new_result E b m c p =
     \<lparr>Country = ''Malaysia'',
      Device_Type = (if contains ''iPhone'' m \<or> contains ''Galaxy'' m
                     then ''Smartphone'' else ''Tablet''),
      Brand = b, Model = m,
      Capacity = (case capacity_search m of Some g \<Rightarrow> remove_spaces g | None \<Rightarrow> []),
      Color = [], Launch_RRP = [], Condition = c, Value_Type = ''Trade-In'',
      Currency = ''MYR'', Value = p, Source = ''MY_RV_Source5'', Updated_on = today E,
      Updated_by = [], Comments = []\<rparr>"
  by (simp add: new_result_def defaults_def Let_def split: option.splits)

lemma returns_issue_try: "returns (try_except (issue E c) (\<lambda>e. ret ()))"
  by (rule returns_try) simp

subsection \<open>Commands are only appended\<close>

lemma emits_ret [simp]: "emits Q (ret x)"
  by (simp add: emits_def ret_def)

lemma emits_ask: "Q c \<Longrightarrow> emits Q (ask E f c)"
  by (simp add: emits_def)

lemma emits_issue: "Q c \<Longrightarrow> emits Q (issue E c)"
  by (simp add: issue_def emits_ask)

lemma emits_bind:
  assumes "emits Q m" and "\<And>x. emits Q (k x)"
  shows "emits Q (bind m k)"
  unfolding emits_def
proof
  fix s
  obtain cs where cs: "issued (snd (m s)) = issued s @ cs" "list_all Q cs"
    using assms(1) by (auto simp: emits_def)
  show "\<exists>cs. issued (snd (bind m k s)) = issued s @ cs \<and> list_all Q cs"
  proof (cases "fst (m s)")
    case (Inl e)
    with cs show ?thesis by (auto simp: snd_bind)
  next
    case (Inr x)
    obtain cs' where cs': "issued (snd (k x (snd (m s)))) = issued (snd (m s)) @ cs'"
      "list_all Q cs'"
      using assms(2) [of x] by (auto simp: emits_def)
    have "issued (snd (bind m k s)) = issued s @ (cs @ cs')"
      using Inr cs cs' by (simp add: snd_bind)
    moreover have "list_all Q (cs @ cs')" using cs cs' by simp
    ultimately show ?thesis by blast
  qed
qed

lemma emits_try_except:
  assumes "emits Q m" and "\<And>e. emits Q (h e)"
  shows "emits Q (try_except m h)"
  unfolding emits_def
proof
  fix s
  obtain cs where cs: "issued (snd (m s)) = issued s @ cs" "list_all Q cs"
    using assms(1) by (auto simp: emits_def)
  show "\<exists>cs. issued (snd (try_except m h s)) = issued s @ cs \<and> list_all Q cs"
  proof (cases "fst (m s)")
    case (Inr x)
    with cs show ?thesis by (auto simp: snd_try_except)
  next
    case (Inl e)
    obtain cs' where cs': "issued (snd (h e (snd (m s)))) = issued (snd (m s)) @ cs'"
      "list_all Q cs'"
      using assms(2) [of e] by (auto simp: emits_def)
    have "issued (snd (try_except m h s)) = issued s @ (cs @ cs')"
      using Inl cs cs' by (simp add: snd_try_except)
    moreover have "list_all Q (cs @ cs')" using cs cs' by simp
    ultimately show ?thesis by blast
  qed
qed

lemma emits_if: "emits Q m \<Longrightarrow> emits Q n \<Longrightarrow> emits Q (if b then m else n)"
  by simp

lemma emits_with_results: "(\<And>df. emits Q (k df)) \<Longrightarrow> emits Q (with_results k)"
  by (simp add: emits_def with_results_def)

lemma emits_append_result [simp]: "emits Q (append_result r)"
  by (simp add: emits_def append_result_def)

lemmas emits_intros = emits_bind emits_try_except emits_if emits_with_results emits_ask emits_issue

lemma emits_js_check_radio: "Q (ExecuteScript (CheckRadioById i)) \<Longrightarrow> emits Q (js_check_radio E i)"
  unfolding js_check_radio_def by (intro emits_intros) simp_all

lemma emits_js_check_checkbox:
  "Q (ExecuteScript (SetCheckboxById i b)) \<Longrightarrow> emits Q (js_check_checkbox E i b)"
  unfolding js_check_checkbox_def by (intro emits_intros) simp_all

lemma emits_select_screen_condition:
  assumes "\<And>x. Q (ExecuteScript x)"
  shows "emits Q (select_screen_condition E c)"
  unfolding select_screen_condition_def
  by (cases "condition_id_map c")
     (simp_all add: emits_bind emits_try_except emits_ask emits_js_check_radio assms)

lemma emits_uncheck_all:
  assumes "\<And>x. Q (ExecuteScript x)"
  shows "emits Q (uncheck_all E ids)"
  by (induction ids) (simp_all add: emits_bind emits_js_check_checkbox assms)

lemma emits_fill_form:
  assumes "\<And>x. Q (ExecuteScript x)"
  shows "emits Q (fill_form E c)"
  unfolding fill_form_def
  by (intro emits_intros emits_select_screen_condition emits_js_check_radio
      emits_uncheck_all emits_js_check_checkbox assms) simp_all

lemma emits_find_price_text:
  assumes "\<And>l. Q (WaitVisibleText l)"
  shows "emits Q (find_price_text E sels)"
proof (induction sels)
  case Nil
  show ?case by simp
next
  case (Cons sel sels)
  have "emits Q (case found of Some price_text \<Rightarrow> ret (Some price_text)
                 | None \<Rightarrow> find_price_text E sels)" for found
    by (cases found) (simp_all add: Cons.IH)
  then show ?case
    by (simp add: emits_bind emits_try_except emits_ask assms)
qed

lemma emits_extract_price:
  assumes "\<And>l. Q (WaitVisibleText l)" and "\<And>x. Q (ExecuteScript x)"
  shows "emits Q (extract_price E)"
proof -
  have "emits Q (case found of None \<Rightarrow> ask E text_of (ExecuteScript ScanForPrice)
          | Some t \<Rightarrow> if t = [] then ask E text_of (ExecuteScript ScanForPrice) else ret t)"
    for found
    by (cases found) (simp_all add: emits_ask assms)
  then show ?thesis
    unfolding extract_price_def
    by (intro emits_intros emits_find_price_text assms) simp_all
qed

lemma emits_submit:
  assumes "\<And>l. Q (WaitVisibleText l)" and "\<And>x. Q (ExecuteScript x)" and "\<And>l. Q (FindElement l)"
  shows "emits Q (submit_form_and_get_price E)"
  unfolding submit_form_and_get_price_def js_click_def
  by (intro emits_intros emits_extract_price assms) simp_all

lemma emits_switch_to_iframe:
  assumes "\<And>l. Q (WaitPresence l)" and "\<And>l. Q (FindElements l)" and "\<And>n. Q (SwitchToFrame n)"
  shows "emits Q (switch_to_iframe E)"
  unfolding switch_to_iframe_def
  by (intro emits_intros assms) simp_all

lemma emits_select_brand:
  assumes "\<And>i t. Q (SelectByVisibleText i t)" and "\<And>i n. Q (SelectByIndex i n)"
  shows "emits Q (select_brand E b bm)"
  unfolding select_brand_def
  by (cases bm) (simp_all add: emits_issue assms)

lemma emits_select_model_and_next:
  assumes "\<And>c. \<not> is_session_cmd c \<Longrightarrow> Q c"
  shows "emits Q (select_model_and_next E b m)"
  unfolding select_model_and_next_def js_click_def
  by (intro emits_intros emits_select_brand assms) simp_all

lemma emits_save_progress:
  assumes "\<And>c. \<not> is_session_cmd c \<Longrightarrow> Q c"
  shows "emits Q (save_progress A E)"
  unfolding save_progress_def
  by (intro emits_intros assms) simp_all

lemma emits_record_quote:
  assumes "\<And>c. \<not> is_session_cmd c \<Longrightarrow> Q c"
  shows "emits Q (record_quote A E b m c)"
  unfolding record_quote_def
  by (intro emits_intros emits_fill_form emits_submit emits_save_progress assms) simp_all

lemma emits_select_fill_submit:
  assumes "\<And>c. \<not> is_session_cmd c \<Longrightarrow> Q c"
  shows "emits Q (select_fill_submit A E b m c)"
  unfolding select_fill_submit_def
  by (intro emits_bind emits_select_model_and_next emits_record_quote assms)

lemma emits_get_models:
  assumes "\<And>c. \<not> is_session_cmd c \<Longrightarrow> Q c"
  shows "emits Q (get_models A E b)"
  unfolding get_models_def
  by (intro emits_intros emits_select_brand assms) simp_all

lemma emitsD:
  assumes "emits Q m" and "m s = (r, s')"
  shows "\<exists>cs. issued s' = issued s @ cs \<and> list_all Q cs"
  using assms by (auto simp: emits_def dest: spec [of _ s])

lemma issued_after_issue: "issued (snd (issue E c s)) = issued s @ [c]"
  by (simp add: issue_def)

lemma emits_extends:
  assumes "emits Q m" and "issued s = h"
  shows "\<exists>rest. issued (snd (m s)) = h @ rest"
  using assms by (auto simp: emits_def dest: spec [of _ s])

subsection \<open>Unfolding the script on a sample environment\<close>

lemmas run_defs = scrape_trade_in_prices_def save_and_close_def clear_results_def
  process_brand_def work_unit_def recover_def
  select_fill_submit_def record_quote_def select_model_and_next_def save_progress_def
  get_models_def slice_to_def select_brand_def brand_matches_def is_listed_def
  switch_to_iframe_def with_results_def append_result_def
  submit_form_and_get_price_def extract_price_def price_selectors_def
  fill_form_def issue_checkboxes_def select_screen_condition_def
  condition_id_map_def js_check_checkbox_def js_check_radio_def js_click_def issue_def ask_def
  try_except_def bind_def ret_def brands_def screen_conditions_def
  lower_def lower_char_def is_upper_def strip_def is_space_def is_digit_def starts_with_def
  price_match_at_def parse_price_def URL_def next_button_def submit_button_def

lemmas env_defs = sample_args_def all_ok_env_def no_radio_env_def no_brand_env_def pixel_env_def
  dies_after_def start_def

section \<open>The currency-pattern parser\<close>

text \<open>
  C2, as stated, fails on its first example: on \<open>RM 1,234\<close> the pattern stops at the comma
  and the parser returns \<open>1\<close>, not \<open>1234\<close>.
\<close>

theorem parse_price_thousands_counterexample: "parse_price ''RM 1,234'' \<noteq> ''1234''"
  by (simp add: str_defs)

text \<open>
  C2 (amended): the parser returns \<open>1\<close> on \<open>RM 1,234\<close> (the digits up to the comma),
  \<open>1234.50\<close> on \<open>RM1234.50\<close>, and the empty string on every text that does not contain
  \<open>RM\<close>.
\<close>

theorem parse_price_examples:
  "parse_price ''RM 1,234'' = ''1'' \<and> parse_price ''RM1234.50'' = ''1234.50'' \<and>
   (\<forall>t. \<not> contains ''RM'' t \<longrightarrow> parse_price t = [])"
  by (simp add: str_defs)

theorem parse_price_examples_witness:
  "\<not> contains ''RM'' ''USD 12'' \<and> parse_price ''USD 12'' = []"
  using parse_price_examples by (simp add: starts_with_def)

section \<open>The condition form\<close>

lemma fill_form_value: "fst (fill_form E c s) = fst (select_screen_condition E c s)"
proof -
  obtain b where b: "fst (select_screen_condition E c s) = Inr b"
    using returns_select_screen_condition [of E c] by (auto simp: returns_def)
  obtain s1 where s1: "select_screen_condition E c s = (Inr b, s1)"
    using b by (cases "select_screen_condition E c s") simp
  show ?thesis
    using fill_form_after_screen [of E c s s1] fill_form_screen_failed [of E c s s1] s1
    by (cases b) simp_all
qed

text \<open>
  C3: the condition-form stage should report success only when all three sub-steps do.
  In a page that has the screen-condition radio but neither the body radio \<open>CPBP01\<close> nor
  the checkbox \<open>CISS\<close>, \<open>fill_form\<close> returns \<open>True\<close> although both helpers answer
  \<open>False\<close>: their answers are printed and never tested.
\<close>

theorem fill_form_success_without_body_or_issues:
  "fst (fill_form screen_only_env ''Flawless'' start) = Inr True \<and>
   fst (js_check_radio screen_only_env ''CPBP01''
          (snd (select_screen_condition screen_only_env ''Flawless'' start))) = Inr False \<and>
   fst (js_check_checkbox screen_only_env ''CISS'' True start) = Inr False"
  by (simp add: fill_form_value js_check_radio_eq js_check_checkbox_eq select_screen_condition_def
      condition_id_map_def bind_def ret_def screen_only_env_def all_ok_env_def start_def)

lemma first_command:
  assumes "condition_id_map c = Some i" "i \<noteq> []"
  shows "\<exists>rest. issued (snd (select_screen_condition E c s)) = issued s @ ExecuteScript (CheckRadioById i) # rest"
  using assms
  by (simp add: select_screen_condition_def bind_def js_check_radio_eq ret_def try_except_def ask_def
      split: option.splits)

text \<open>
  C4: \<open>Flawless\<close>, \<open>Good\<close> and \<open>Damaged\<close> map to \<open>CPTS01\<close>, \<open>CPTS02\<close> and \<open>CPTS04\<close>, and
  that identifier is the one of the first command the stage issues; for any other
  condition string the stage fails and issues no command at all (the state is
  unchanged).
\<close>

theorem select_screen_condition_mapping:
  assumes "c \<noteq> ''Flawless''" and "c \<noteq> ''Good''" and "c \<noteq> ''Damaged''"
  shows "condition_id_map ''Flawless'' = Some ''CPTS01'' \<and>
         condition_id_map ''Good'' = Some ''CPTS02'' \<and>
         condition_id_map ''Damaged'' = Some ''CPTS04'' \<and>
         (\<exists>rest. issued (snd (select_screen_condition E ''Flawless'' s)) =
            issued s @ ExecuteScript (CheckRadioById ''CPTS01'') # rest) \<and>
         (\<exists>rest. issued (snd (select_screen_condition E ''Good'' s)) =
            issued s @ ExecuteScript (CheckRadioById ''CPTS02'') # rest) \<and>
         (\<exists>rest. issued (snd (select_screen_condition E ''Damaged'' s)) =
            issued s @ ExecuteScript (CheckRadioById ''CPTS04'') # rest) \<and>
         select_screen_condition E c s = (Inr False, s) \<and>
         fill_form E c s = (Inr False, s)"
proof -
  have m: "condition_id_map ''Flawless'' = Some ''CPTS01''"
    "condition_id_map ''Good'' = Some ''CPTS02''"
    "condition_id_map ''Damaged'' = Some ''CPTS04''"
    by (simp_all add: condition_id_map_def)
  have u: "select_screen_condition E c s = (Inr False, s)"
    using assms by (rule unmapped)
  show ?thesis
    using m u first_command [OF m(1), of E s] first_command [OF m(2), of E s]
      first_command [OF m(3), of E s] fill_form_screen_failed [OF u]
    by simp
qed

theorem select_screen_condition_mapping_witness:
  "select_screen_condition all_ok_env ''Heavy Scratches'' start = (Inr False, start) \<and>
   fill_form all_ok_env ''Heavy Scratches'' start = (Inr False, start)"
  using select_screen_condition_mapping [of "''Heavy Scratches''" all_ok_env start] by simp

section \<open>Price extraction\<close>

lemma find_price_text_all_raise:
  assumes "\<forall>h sel. raises E h (WaitVisibleText (ByCssSelector sel)) \<noteq> None"
  shows "fst (find_price_text E sels s) = Inr None"
proof (induction sels arbitrary: s)
  case Nil
  show ?case by (simp add: ret_def)
next
  case (Cons sel sels)
  obtain e where "raises E (issued s) (WaitVisibleText (ByCssSelector sel)) = Some e"
    using assms by auto
  then show ?case
    using Cons.IH by (simp add: bind_def try_except_def ask_def ret_def)
qed

lemma returns_find_price_text: "returns (find_price_text E sels)"
proof (induction sels)
  case Nil
  show ?case by simp
next
  case (Cons sel sels)
  have "returns (case found of Some price_text \<Rightarrow> ret (Some price_text)
                 | None \<Rightarrow> find_price_text E sels)" for found
    by (cases found) (simp_all add: Cons.IH)
  then show ?case
    by (simp add: returns_bind returns_try)
qed

lemma find_price_text_first:
  assumes "raises E (issued s) (WaitVisibleText (ByCssSelector sel)) = None"
  shows "find_price_text E (sel # sels) s =
           (Inr (Some (strip (text_of E (issued s) (WaitVisibleText (ByCssSelector sel))))),
            s\<lparr>issued := issued s @ [WaitVisibleText (ByCssSelector sel)]\<rparr>)"
  using assms by (simp add: bind_def try_except_def ask_def ret_def)

text \<open>
  C5: \<open>extract_price\<close> never raises: from every state and in every environment it ends
  with a string, and so does the loop over the selectors. The string is the group of
  the price pattern in the text that was obtained, and empty on every other path:
  a visible text without \<open>RM\<close>, or with \<open>RM\<close> and no digits after it; no visible text
  (no selector matched, or the first match was blank) and a scan that raises, or finds
  nothing, or finds a text that does not match.
\<close>

theorem extract_price_never_raises:
  "(\<exists>v. fst (extract_price E s) = Inr v) \<and>
   (\<exists>found. fst (find_price_text E price_selectors s) = Inr found) \<and>
   (\<forall>t. fst (find_price_text E price_selectors s) = Inr (Some t) \<and> t \<noteq> [] \<longrightarrow>
      fst (extract_price E s) =
        Inr (if contains ''RM'' t
             then (case price_search t of Some g \<Rightarrow> g | None \<Rightarrow> [])
             else [])) \<and>
   (fst (find_price_text E price_selectors s) = Inr None \<or>
    fst (find_price_text E price_selectors s) = Inr (Some []) \<longrightarrow>
      fst (extract_price E s) =
        Inr (let h = issued (snd (find_price_text E price_selectors s));
                 t = text_of E h (ExecuteScript ScanForPrice)
             in if raises E h (ExecuteScript ScanForPrice) = None \<and> t \<noteq> [] \<and> contains ''RM'' t
                then (case price_search t of Some g \<Rightarrow> g | None \<Rightarrow> [])
                else [])) \<and>
   ((\<forall>h sel. raises E h (WaitVisibleText (ByCssSelector sel)) \<noteq> None) \<and>
    (\<forall>h. \<not> contains ''RM'' (text_of E h (ExecuteScript ScanForPrice)))
    \<longrightarrow> fst (extract_price E s) = Inr [])"
proof (intro conjI impI allI)
  show "\<exists>v. fst (extract_price E s) = Inr v"
    using returns_extract_price [of E] by (simp add: returns_def)
next
  show "\<exists>found. fst (find_price_text E price_selectors s) = Inr found"
    using returns_find_price_text [of E price_selectors] by (simp add: returns_def)
next
  fix t
  assume a: "fst (find_price_text E price_selectors s) = Inr (Some t) \<and> t \<noteq> []"
  obtain s1 where "find_price_text E price_selectors s = (Inr (Some t), s1)"
    using a by (cases "find_price_text E price_selectors s") simp
  then show "fst (extract_price E s) =
        Inr (if contains ''RM'' t
             then (case price_search t of Some g \<Rightarrow> g | None \<Rightarrow> [])
             else [])"
    using a by (simp add: extract_price_def try_except_def bind_def ret_def parse_price_def)
next
  assume a: "fst (find_price_text E price_selectors s) = Inr None \<or>
    fst (find_price_text E price_selectors s) = Inr (Some [])"
  obtain r s1 where s1: "find_price_text E price_selectors s = (r, s1)"
    by (cases "find_price_text E price_selectors s")
  with a have "r = Inr None \<or> r = Inr (Some [])" by simp
  then show "fst (extract_price E s) =
        Inr (let h = issued (snd (find_price_text E price_selectors s));
                 t = text_of E h (ExecuteScript ScanForPrice)
             in if raises E h (ExecuteScript ScanForPrice) = None \<and> t \<noteq> [] \<and> contains ''RM'' t
                then (case price_search t of Some g \<Rightarrow> g | None \<Rightarrow> [])
                else [])"
    using s1
    by (auto simp add: extract_price_def try_except_def bind_def ret_def ask_def parse_price_def
        Let_def split: option.splits)
next
  assume a: "(\<forall>h sel. raises E h (WaitVisibleText (ByCssSelector sel)) \<noteq> None) \<and>
    (\<forall>h. \<not> contains ''RM'' (text_of E h (ExecuteScript ScanForPrice)))"
  then have f: "fst (find_price_text E price_selectors s) = Inr None"
    using find_price_text_all_raise by blast
  obtain s1 where s1: "find_price_text E price_selectors s = (Inr None, s1)"
    using f by (cases "find_price_text E price_selectors s") simp
  show "fst (extract_price E s) = Inr []"
    using a s1
    by (simp add: extract_price_def try_except_def bind_def ask_def ret_def parse_price_def
        split: option.splits)
qed

theorem extract_price_never_raises_witness:
  "fst (extract_price dead_env start) = Inr [] \<and>
   fst (extract_price (plain_text_env ''RM 1,250.00 '') start) = Inr ''1'' \<and>
   fst (extract_price (plain_text_env ''  RM250.50 only'') start) = Inr ''250.50'' \<and>
   fst (extract_price (plain_text_env ''Contact us'') start) = Inr [] \<and>
   fst (extract_price (plain_text_env ''RM n/a'') start) = Inr [] \<and>
   fst (extract_price (plain_text_env ''  '') start) = Inr ''999'' \<and>
   fst (extract_price blank_then_scan_raises_env start) = Inr []"
proof -
  have d: "fst (extract_price dead_env start) = Inr []"
    using extract_price_never_raises [of dead_env start]
    by (simp add: dead_env_def all_ok_env_def)
  have f: "fst (find_price_text (plain_text_env t) price_selectors start) = Inr (Some (strip t))"
    for t
    by (simp add: price_selectors_def find_price_text_first plain_text_env_def all_ok_env_def
        del: find_price_text.simps)
  have b: "find_price_text blank_then_scan_raises_env price_selectors start =
             (Inr (Some []), \<lparr>issued = [WaitVisibleText (ByCssSelector ''.valuationAmount'')],
                              results_df = []\<rparr>)"
    by (simp add: price_selectors_def find_price_text_first blank_then_scan_raises_env_def
        all_ok_env_def start_def strip_def del: find_price_text.simps)
  have p1: "fst (extract_price (plain_text_env ''RM 1,250.00 '') start) = Inr ''1''"
    using extract_price_never_raises [of "plain_text_env ''RM 1,250.00 ''" start] f
    by (simp add: strip_def str_defs)
  have p2: "fst (extract_price (plain_text_env ''  RM250.50 only'') start) = Inr ''250.50''"
    using extract_price_never_raises [of "plain_text_env ''  RM250.50 only''" start] f
    by (simp add: strip_def str_defs)
  have p3: "fst (extract_price (plain_text_env ''Contact us'') start) = Inr []"
    using extract_price_never_raises [of "plain_text_env ''Contact us''" start] f
    by (simp add: strip_def str_defs)
  have p4: "fst (extract_price (plain_text_env ''RM n/a'') start) = Inr []"
    using extract_price_never_raises [of "plain_text_env ''RM n/a''" start] f
    by (simp add: strip_def str_defs)
  have p6: "fst (extract_price (plain_text_env ''  '') start) = Inr ''999''"
    using extract_price_never_raises [of "plain_text_env ''  ''" start] f [of "''  ''"]
    by (simp add: strip_def str_defs plain_text_env_def all_ok_env_def)
  have p5: "fst (extract_price blank_then_scan_raises_env start) = Inr []"
    using extract_price_never_raises [of blank_then_scan_raises_env start] b
    by (simp add: blank_then_scan_raises_env_def all_ok_env_def)
  show ?thesis using d p1 p2 p3 p4 p5 p6 by simp
qed

section \<open>The body condition\<close>

text \<open>
  C6: once the screen condition is selected, \<open>fill_form\<close> goes on with the same commands
  whatever the requested condition is: the radio \<open>CPBP01\<close>, then the five issue
  checkboxes cleared and \<open>CISS\<close> set.
\<close>

theorem fill_form_body_condition_constant:
  assumes "fst (select_screen_condition E c s) = Inr True"
  shows "issued (snd (fill_form E c s)) =
           issued (snd (select_screen_condition E c s))
           @ ExecuteScript (CheckRadioById ''CPBP01'')
           # map (\<lambda>i. ExecuteScript (SetCheckboxById i False)) issue_checkboxes
           @ [ExecuteScript (SetCheckboxById ''CISS'' True)]"
proof -
  obtain s1 where s1: "select_screen_condition E c s = (Inr True, s1)"
    using assms by (cases "select_screen_condition E c s") simp
  show ?thesis
    using fill_form_after_screen [OF s1] s1 by simp
qed

theorem fill_form_body_condition_constant_witness:
  "issued (snd (fill_form all_ok_env ''Good'' start)) =
     [ExecuteScript (CheckRadioById ''CPTS02''),
      ExecuteScript (CheckRadioById ''CPBP01''),
      ExecuteScript (SetCheckboxById ''CBAT'' False),
      ExecuteScript (SetCheckboxById ''CTON'' False),
      ExecuteScript (SetCheckboxById ''CBRK'' False),
      ExecuteScript (SetCheckboxById ''CLIQ'' False),
      ExecuteScript (SetCheckboxById ''CMIS'' False),
      ExecuteScript (SetCheckboxById ''CISS'' True)]"
  using fill_form_body_condition_constant [of all_ok_env "''Good''" start]
  by (simp add: select_screen_condition_def condition_id_map_def bind_def ret_def
      js_check_radio_eq all_ok_env_def start_def issue_checkboxes_def)

section \<open>Records per work unit\<close>

lemma record_quote_filled:
  assumes "fst (fill_form E c s) = Inr True"
  shows "\<exists>p. results_df (snd (record_quote A E b m c s)) = results_df s @ [new_result E b m c p]"
proof -
  obtain s1 where s1: "fill_form E c s = (Inr True, s1)"
    using assms by (cases "fill_form E c s") simp
  have r1: "results_df s1 = results_df s"
    using keepsD [OF keeps_fill_form, of E c s] s1 by simp
  obtain p s2 where s2: "submit_form_and_get_price E s1 = (Inr p, s2)"
    using returnsD [OF returns_submit] by blast
  have r2: "results_df s2 = results_df s1"
    using keepsD [OF keeps_submit, of E s1] s2 by simp
  let ?s3 = "s2\<lparr>results_df := results_df s2 @ [new_result E b m c p]\<rparr>"
  have "record_quote A E b m c s = save_progress A E ?s3"
    using s1 s2 by (simp add: record_quote_def bind_def append_result_def)
  then have "results_df (snd (record_quote A E b m c s)) = results_df ?s3"
    using keepsD [OF keeps_save_progress, of A E ?s3] by simp
  then show ?thesis using r1 r2 by auto
qed

lemma record_quote_not_filled:
  assumes "fst (fill_form E c s) = Inr False"
  shows "results_df (snd (record_quote A E b m c s)) = results_df s"
proof -
  obtain s1 where s1: "fill_form E c s = (Inr False, s1)"
    using assms by (cases "fill_form E c s") simp
  have r1: "results_df s1 = results_df s"
    using keepsD [OF keeps_fill_form, of E c s] s1 by simp
  have "record_quote A E b m c s = save_progress A E s1"
    using s1 by (simp add: record_quote_def bind_def)
  then show ?thesis
    using keepsD [OF keeps_save_progress, of A E s1] r1 by simp
qed

lemma record_quote_at_most_one:
  "results_df (snd (record_quote A E b m c s)) = results_df s \<or>
   (\<exists>p. results_df (snd (record_quote A E b m c s)) = results_df s @ [new_result E b m c p])"
proof -
  obtain x s1 where "fill_form E c s = (Inr x, s1)"
    using returnsD [OF returns_fill_form] by blast
  then have "fst (fill_form E c s) = Inr x" by simp
  then show ?thesis
    using record_quote_filled [of E c s A b m] record_quote_not_filled [of E c s A b m]
    by (cases x) simp_all
qed

lemma select_fill_submit_at_most_one:
  "results_df (snd (select_fill_submit A E b m c s)) = results_df s \<or>
   (\<exists>p. results_df (snd (select_fill_submit A E b m c s)) = results_df s @ [new_result E b m c p])"
proof (cases "fst (select_model_and_next E b m s)")
  case (Inl e)
  then show ?thesis
    by (simp add: select_fill_submit_def snd_bind keepsD)
next
  case (Inr x)
  then show ?thesis
    using record_quote_at_most_one [of A E b m c "snd (select_model_and_next E b m s)"]
    by (simp add: select_fill_submit_def snd_bind keepsD)
qed

lemma work_unit_results:
  "results_df (snd (work_unit A E b m c s)) = results_df s \<or>
   results_df (snd (work_unit A E b m c s)) =
     results_df (snd (select_fill_submit A E b m c
                        (snd (switch_to_iframe E (snd (issue E (Get URL) s))))))"
  by (simp add: work_unit_def snd_bind snd_try_except keepsD split: sum.splits)

lemma results_after_switch:
  "results_df (snd (switch_to_iframe E (snd (issue E (Get URL) s)))) = results_df s"
  by (simp add: keepsD)

lemma record_quote_filled_row:
  assumes "fst (fill_form E c s) = Inr True"
  shows "\<exists>p. fst (submit_form_and_get_price E (snd (fill_form E c s))) = Inr p \<and>
             results_df (snd (record_quote A E b m c s)) = results_df s @ [new_result E b m c p]"
proof -
  obtain s1 where s1: "fill_form E c s = (Inr True, s1)"
    using assms by (cases "fill_form E c s") simp
  have r1: "results_df s1 = results_df s"
    using keepsD [OF keeps_fill_form, of E c s] s1 by simp
  obtain p s2 where s2: "submit_form_and_get_price E s1 = (Inr p, s2)"
    using returnsD [OF returns_submit] by blast
  have r2: "results_df s2 = results_df s1"
    using keepsD [OF keeps_submit, of E s1] s2 by simp
  let ?s3 = "s2\<lparr>results_df := results_df s2 @ [new_result E b m c p]\<rparr>"
  have "record_quote A E b m c s = save_progress A E ?s3"
    using s1 s2 by (simp add: record_quote_def bind_def append_result_def)
  then have "results_df (snd (record_quote A E b m c s)) = results_df ?s3"
    using keepsD [OF keeps_save_progress, of A E ?s3] by simp
  then show ?thesis using r1 r2 s1 s2 by auto
qed

lemma work_unit_reached:
  assumes "fst (issue E (Get URL) s) = Inr ()"
    and "fst (switch_to_iframe E (snd (issue E (Get URL) s))) = Inr True"
    and "fst (select_model_and_next E b m
                (snd (switch_to_iframe E (snd (issue E (Get URL) s))))) = Inr ()"
  shows "results_df (snd (work_unit A E b m c s)) =
           results_df (snd (record_quote A E b m c
             (snd (select_model_and_next E b m
                (snd (switch_to_iframe E (snd (issue E (Get URL) s))))))))"
    and "results_df (snd (select_model_and_next E b m
                (snd (switch_to_iframe E (snd (issue E (Get URL) s)))))) = results_df s"
proof -
  let ?s1 = "snd (issue E (Get URL) s)"
  let ?s2 = "snd (switch_to_iframe E ?s1)"
  let ?s3 = "snd (select_model_and_next E b m ?s2)"
  obtain s1 where i: "issue E (Get URL) s = (Inr (), s1)"
    using assms(1) by (cases "issue E (Get URL) s") simp
  obtain s2 where sw: "switch_to_iframe E s1 = (Inr True, s2)"
    using assms(2) i by (cases "switch_to_iframe E s1") simp
  obtain s3 where sm: "select_model_and_next E b m s2 = (Inr (), s3)"
    using assms(3) i sw by (cases "select_model_and_next E b m s2") simp
  obtain y s4 where rq: "record_quote A E b m c s3 = (Inr y, s4)"
    using returnsD [OF returns_record_quote] by blast
  have "work_unit A E b m c s = (Inr Continue, s4)"
    using i sw sm rq
    by (simp add: work_unit_def select_fill_submit_def bind_def try_except_def ret_def)
  then show "results_df (snd (work_unit A E b m c s)) =
           results_df (snd (record_quote A E b m c ?s3))"
    using i sw sm rq by simp
  show "results_df ?s3 = results_df s"
    by (simp add: keepsD)
qed

lemma work_unit_not_reached:
  assumes "\<not> (fst (issue E (Get URL) s) = Inr () \<and>
             fst (switch_to_iframe E (snd (issue E (Get URL) s))) = Inr True \<and>
             fst (select_model_and_next E b m
                (snd (switch_to_iframe E (snd (issue E (Get URL) s))))) = Inr ())"
  shows "results_df (snd (work_unit A E b m c s)) = results_df s"
proof -
  let ?s1 = "snd (issue E (Get URL) s)"
  let ?s2 = "snd (switch_to_iframe E ?s1)"
  let ?s3 = "snd (select_model_and_next E b m ?s2)"
  consider (a) "fst (issue E (Get URL) s) \<noteq> Inr ()"
    | (b) "fst (issue E (Get URL) s) = Inr ()" "fst (switch_to_iframe E ?s1) \<noteq> Inr True"
    | (c) "fst (issue E (Get URL) s) = Inr ()" "fst (switch_to_iframe E ?s1) = Inr True"
          "fst (select_model_and_next E b m ?s2) \<noteq> Inr ()"
    using assms by blast
  then show ?thesis
  proof cases
    case a
    then obtain e where "fst (issue E (Get URL) s) = Inl e"
      by (cases "fst (issue E (Get URL) s)") auto
    then show ?thesis
      by (simp add: work_unit_def snd_bind keepsD)
  next
    case b
    obtain x s' where "switch_to_iframe E ?s1 = (Inr x, s')"
      using returnsD [of "switch_to_iframe E"] 
      by (metis returns_try returns_ret switch_to_iframe_def)
    with b have "fst (switch_to_iframe E ?s1) = Inr False" by (cases x) simp_all
    with b show ?thesis
      by (simp add: work_unit_def snd_bind keepsD ret_def)
  next
    case c
    then obtain e where e: "fst (select_model_and_next E b m ?s2) = Inl e"
      by (cases "fst (select_model_and_next E b m ?s2)") auto
    obtain s1 where i: "issue E (Get URL) s = (Inr (), s1)"
      using c(1) by (cases "issue E (Get URL) s") simp
    obtain s2 where sw: "switch_to_iframe E s1 = (Inr True, s2)"
      using c(2) i by (cases "switch_to_iframe E s1") simp
    obtain s3 where sm: "select_model_and_next E b m s2 = (Inl e, s3)"
      using e i sw by (cases "select_model_and_next E b m s2") simp
    have "work_unit A E b m c s = recover A E s3"
      using i sw sm
      by (simp add: work_unit_def select_fill_submit_def bind_def try_except_def)
    moreover have "results_df s3 = results_df s"
      using keepsD [OF keeps_issue, of E "Get URL" s] keepsD [OF keeps_switch_to_iframe, of E s1]
        keepsD [OF keeps_select_model_and_next, of E b m s2] i sw sm
      by simp
    ultimately show ?thesis
      by (simp add: keepsD)
  qed
qed

lemma work_unit_row:
  "results_df (snd (work_unit A E b m c s)) = results_df s \<or>
   (\<exists>p. results_df (snd (work_unit A E b m c s)) = results_df s @ [new_result E b m c p])"
  using work_unit_results [of A E b m c s] results_after_switch [of E s]
    select_fill_submit_at_most_one
      [of A E b m c "snd (switch_to_iframe E (snd (issue E (Get URL) s)))"]
  by auto

text \<open>
  C1, as stated, fails: a work unit whose form cannot be filled (here no radio control
  answers, so \<open>fill_form\<close> returns \<open>False\<close>) runs through and appends no record.
\<close>

theorem work_unit_without_record_counterexample:
  "work_unit sample_args no_radio_env ''Apple'' ''iPhone 13 128GB'' ''Good'' start =
     (Inr Continue,
      \<lparr>issued =
         [Get URL, WaitPresence (ByTagName ''iframe''), FindElements (ByTagName ''iframe''),
          SwitchToFrame 0, WaitPresence (ById ''manufacturer''),
          SelectOptions ''manufacturer'', SelectByVisibleText ''manufacturer'' ''Apple'',
          WaitPresence (ById ''tinProduct''),
          SelectByVisibleText ''tinProduct'' ''iPhone 13 128GB'',
          WaitClickable next_button, ExecuteScript (ScrollIntoView next_button),
          ExecuteScript (Click next_button),
          ExecuteScript (CheckRadioById ''CPTS02''),
          ExecuteScript (CheckRadioByNameValue ''CPTS'' ''CPTS02''),
          ExecuteScript (CheckRadioByLabel ''Good''),
          ToExcel ''MY_RV_Source5.xlsx''],
       results_df = []\<rparr>)"
  by (simp add: run_defs env_defs)

text \<open>
  C1 (amended): a work unit appends at most one record. It appends exactly one, the row
  of its own brand, model and condition with the extracted price (possibly empty) as
  the value, when the page is loaded, the frame entered, brand and model selected, Next
  clicked and \<open>fill_form\<close> returns \<open>True\<close>; in every other case it appends none.
\<close>

theorem work_unit_at_most_one_record:
  "let s1 = snd (issue E (Get URL) s);
       s2 = snd (switch_to_iframe E s1);
       s3 = snd (select_model_and_next E b m s2);
       s4 = snd (fill_form E c s3);
       reached = (fst (issue E (Get URL) s) = Inr () \<and>
                  fst (switch_to_iframe E s1) = Inr True \<and>
                  fst (select_model_and_next E b m s2) = Inr ());
       filled = (fst (fill_form E c s3) = Inr True);
       row = (\<lambda>p.
         \<lparr>Country = ''Malaysia'',
          Device_Type = (if contains ''iPhone'' m \<or> contains ''Galaxy'' m
                         then ''Smartphone'' else ''Tablet''),
          Brand = b, Model = m,
          Capacity = (case capacity_search m of Some g \<Rightarrow> remove_spaces g | None \<Rightarrow> []),
          Color = [], Launch_RRP = [], Condition = c, Value_Type = ''Trade-In'',
          Currency = ''MYR'', Value = p, Source = ''MY_RV_Source5'', Updated_on = today E,
          Updated_by = [], Comments = []\<rparr>);
       after = results_df (snd (work_unit A E b m c s))
   in (reached \<and> filled \<longrightarrow>
         (\<exists>p. fst (submit_form_and_get_price E s4) = Inr p \<and> after = results_df s @ [row p])) \<and>
      (\<not> (reached \<and> filled) \<longrightarrow> after = results_df s) \<and>
      (after = results_df s \<or> (\<exists>p. after = results_df s @ [row p]))"
proof -
  let ?s1 = "snd (issue E (Get URL) s)"
  let ?s2 = "snd (switch_to_iframe E ?s1)"
  let ?s3 = "snd (select_model_and_next E b m ?s2)"
  let ?s4 = "snd (fill_form E c ?s3)"
  let ?reached = "fst (issue E (Get URL) s) = Inr () \<and>
                  fst (switch_to_iframe E ?s1) = Inr True \<and>
                  fst (select_model_and_next E b m ?s2) = Inr ()"
  let ?filled = "fst (fill_form E c ?s3) = Inr True"
  let ?after = "results_df (snd (work_unit A E b m c s))"
  have yes: "\<exists>p. fst (submit_form_and_get_price E ?s4) = Inr p \<and>
                  ?after = results_df s @ [new_result E b m c p]"
    if "?reached" "?filled"
    using that work_unit_reached(1) [of E s b m A c] work_unit_reached(2) [of E s b m]
      record_quote_filled_row [of E c ?s3 A b m]
    by auto
  have no: "?after = results_df s" if "\<not> (?reached \<and> ?filled)"
  proof (cases "?reached")
    case False
    then show ?thesis using work_unit_not_reached [of E s b m A c] by blast
  next
    case True
    obtain x s' where "fill_form E c ?s3 = (Inr x, s')"
      using returnsD [OF returns_fill_form] by blast
    with that True have "fst (fill_form E c ?s3) = Inr False" by (cases x) simp_all
    then show ?thesis
      using True work_unit_reached(1) [of E s b m A c] work_unit_reached(2) [of E s b m]
        record_quote_not_filled [of E c ?s3 A b m]
      by simp
  qed
  show ?thesis
    unfolding Let_def new_result_row [symmetric]
    using yes no by blast
qed

theorem work_unit_at_most_one_record_witness:
  "results_df (snd (work_unit sample_args all_ok_env ''Apple'' ''iPhone 13 128GB'' ''Good''
                      start)) =
     [\<lparr>Country = ''Malaysia'', Device_Type = ''Smartphone'', Brand = ''Apple'',
       Model = ''iPhone 13 128GB'', Capacity = ''128GB'', Color = [], Launch_RRP = [],
       Condition = ''Good'', Value_Type = ''Trade-In'', Currency = ''MYR'', Value = ''250'',
       Source = ''MY_RV_Source5'', Updated_on = ''2025-01-01'', Updated_by = [],
       Comments = []\<rparr>] \<and>
   results_df (snd (work_unit sample_args no_radio_env ''Apple'' ''iPhone 13 128GB'' ''Good''
                      start)) = [] \<and>
   results_df (snd (work_unit sample_args dead_env ''Apple'' ''iPhone 13 128GB'' ''Good''
                      start)) = []"
proof -
  have a: "results_df (snd (work_unit sample_args all_ok_env ''Apple'' ''iPhone 13 128GB''
                      ''Good'' start)) =
     [\<lparr>Country = ''Malaysia'', Device_Type = ''Smartphone'', Brand = ''Apple'',
       Model = ''iPhone 13 128GB'', Capacity = ''128GB'', Color = [], Launch_RRP = [],
       Condition = ''Good'', Value_Type = ''Trade-In'', Currency = ''MYR'', Value = ''250'',
       Source = ''MY_RV_Source5'', Updated_on = ''2025-01-01'', Updated_by = [],
       Comments = []\<rparr>]"
    by (simp add: run_defs env_defs new_result_row capacity_match_at_def remove_spaces_def)
  have b: "fst (issue no_radio_env (Get URL) start) = Inr ()"
    "fst (switch_to_iframe no_radio_env (snd (issue no_radio_env (Get URL) start))) = Inr True"
    "fst (select_model_and_next no_radio_env ''Apple'' ''iPhone 13 128GB''
           (snd (switch_to_iframe no_radio_env (snd (issue no_radio_env (Get URL) start)))))
       = Inr ()"
    "fst (fill_form no_radio_env ''Good''
           (snd (select_model_and_next no_radio_env ''Apple'' ''iPhone 13 128GB''
             (snd (switch_to_iframe no_radio_env (snd (issue no_radio_env (Get URL) start)))))))
       = Inr False"
    by (simp_all add: run_defs env_defs)
  have d: "fst (issue dead_env (Get URL) start) = Inl WebDriverException"
    by (simp add: issue_def ask_def dead_env_def all_ok_env_def)
  show ?thesis
    using a b d
      work_unit_at_most_one_record
        [of all_ok_env start "''Apple''" "''iPhone 13 128GB''" "''Good''" sample_args]
      work_unit_at_most_one_record
        [of no_radio_env start "''Apple''" "''iPhone 13 128GB''" "''Good''" sample_args]
      work_unit_at_most_one_record
        [of dead_env start "''Apple''" "''iPhone 13 128GB''" "''Good''" sample_args]
    by (simp add: Let_def start_def)
qed

section \<open>The brand fallback\<close>

lemma find_no_match: "\<forall>t \<in> set ts. \<not> P t \<Longrightarrow> find P ts = None"
  by (simp add: find_None_iff)

lemma select_brand_no_match:
  "select_brand E brand None =
     issue E (SelectByIndex ''manufacturer'' (if brand = ''Apple'' then 1 else 2))"
  by (simp add: select_brand_def)

lemma select_model_and_next_fallback:
  assumes w: "raises E (issued s) (WaitPresence (ById ''manufacturer'')) = None"
    and o: "raises E (issued s @ [WaitPresence (ById ''manufacturer'')])
              (SelectOptions ''manufacturer'') = None"
    and n: "\<forall>t \<in> set (texts_of E (issued s @ [WaitPresence (ById ''manufacturer'')])
                        (SelectOptions ''manufacturer'')). \<not> brand_matches brand t"
  shows "\<exists>rest. issued (snd (select_model_and_next E brand model s)) =
           issued s @ [WaitPresence (ById ''manufacturer''), SelectOptions ''manufacturer'',
             SelectByIndex ''manufacturer'' (if brand = ''Apple'' then 1 else 2)] @ rest"
proof -
  let ?i = "SelectByIndex ''manufacturer'' (if brand = ''Apple'' then 1 else 2)"
  let ?h = "issued s @ [WaitPresence (ById ''manufacturer''), SelectOptions ''manufacturer'']"
  let ?s2 = "s\<lparr>issued := ?h\<rparr>"
  define K where "K = (\<lambda>_::unit.
     bind (issue E (WaitPresence (ById ''tinProduct''))) (\<lambda>_.
     bind (issue E (SelectByVisibleText ''tinProduct'' model)) (\<lambda>_.
     bind (issue E (WaitClickable next_button)) (\<lambda>_.
     bind (issue E (ExecuteScript (ScrollIntoView next_button))) (\<lambda>_.
     js_click E next_button)))))"
  define T where "T = bind (try_except (issue E ?i) (\<lambda>e. issue E ?i)) K"
  have eK: "emits (\<lambda>_. True) (K x)" for x
    unfolding K_def js_click_def by (intro emits_intros) simp_all
  have "find (brand_matches brand)
          (texts_of E (issued s @ [WaitPresence (ById ''manufacturer'')])
             (SelectOptions ''manufacturer'')) = None"
    using n by (rule find_no_match)
  then have smn: "select_model_and_next E brand model s = T ?s2"
    using w o
    by (simp add: select_model_and_next_def T_def K_def bind_def try_except_def issue_def
        ask_def select_brand_def)
  obtain r s3 where i: "issue E ?i ?s2 = (r, s3)" by (cases "issue E ?i ?s2")
  have h3: "issued s3 = ?h @ [?i]"
    using issued_after_issue [of E ?i ?s2] i by simp
  have "\<exists>rest. issued (snd (T ?s2)) = (?h @ [?i]) @ rest"
  proof (cases r)
    case (Inl e)
    have "emits (\<lambda>_. True) (bind (issue E ?i) K)"
      by (intro emits_bind emits_issue eK) simp
    moreover have "T ?s2 = bind (issue E ?i) K s3"
      using i Inl by (simp add: T_def bind_def try_except_def)
    ultimately show ?thesis
      using emits_extends [OF _ h3] by auto
  next
    case (Inr x)
    have "T ?s2 = K x s3"
      using i Inr by (simp add: T_def bind_def try_except_def)
    then show ?thesis
      using emits_extends [OF eK h3] by auto
  qed
  then show ?thesis using smn by simp
qed

lemma get_models_fallback:
  assumes w: "raises E (issued s) (WaitPresence (ById ''manufacturer'')) = None"
    and o: "raises E (issued s @ [WaitPresence (ById ''manufacturer'')])
              (SelectOptions ''manufacturer'') = None"
    and n: "\<forall>t \<in> set (texts_of E (issued s @ [WaitPresence (ById ''manufacturer'')])
                        (SelectOptions ''manufacturer'')). \<not> brand_matches brand (strip t)"
  shows "\<exists>rest. issued (snd (get_models A E brand s)) =
           issued s @ [WaitPresence (ById ''manufacturer''), SelectOptions ''manufacturer'',
             SelectByIndex ''manufacturer'' (if brand = ''Apple'' then 1 else 2)] @ rest"
proof -
  let ?i = "SelectByIndex ''manufacturer'' (if brand = ''Apple'' then 1 else 2)"
  let ?h = "issued s @ [WaitPresence (ById ''manufacturer''), SelectOptions ''manufacturer'']"
  let ?s2 = "s\<lparr>issued := ?h\<rparr>"
  define K where "K = (\<lambda>_::unit.
        bind (issue E (WaitPresence (ById ''tinProduct''))) (\<lambda>_.
        bind (ask E texts_of (SelectOptions ''tinProduct'')) (\<lambda>options.
        ret (Some (case n_scrape A of
                     Some n \<Rightarrow> slice_to n (filter is_listed options)
                   | None \<Rightarrow> filter is_listed options)))))"
  define T where "T = try_except (bind (issue E ?i) K) (\<lambda>e. ret None)"
  have eT: "emits (\<lambda>_. True) T"
    unfolding T_def K_def by (intro emits_intros) simp_all
  have "find (brand_matches brand)
          (map strip (filter is_listed
             (texts_of E (issued s @ [WaitPresence (ById ''manufacturer'')])
                (SelectOptions ''manufacturer'')))) = None"
    using n by (intro find_no_match) auto
  then have gm: "get_models A E brand s = T ?s2"
    using w o
    by (simp add: get_models_def T_def K_def bind_def try_except_def issue_def
        ask_def select_brand_def)
  obtain r s3 where i: "issue E ?i ?s2 = (r, s3)" by (cases "issue E ?i ?s2")
  have h3: "issued s3 = ?h @ [?i]"
    using issued_after_issue [of E ?i ?s2] i by simp
  have "\<exists>rest. issued (snd (T ?s2)) = (?h @ [?i]) @ rest"
  proof (cases r)
    case (Inl e)
    have "T ?s2 = ret None s3"
      using i Inl by (simp add: T_def bind_def try_except_def)
    then show ?thesis
      using h3 by (simp add: ret_def)
  next
    case (Inr x)
    have "emits (\<lambda>_. True) (try_except (K x) (\<lambda>e. ret None))"
      unfolding K_def by (intro emits_intros) simp_all
    moreover have "T ?s2 = try_except (K x) (\<lambda>e. ret None) s3"
      using i Inr by (simp add: T_def bind_def try_except_def)
    ultimately show ?thesis
      using emits_extends [OF _ h3] by auto
  qed
  then show ?thesis using gm by simp
qed

text \<open>
  C7: when the brand dropdown is found and read, and no option text matches the brand
  (lower-cased, one containing the other; the brand loop of line 384 compares the
  stripped texts), both the brand loop and the work unit select by index: 1 for
  \<open>Apple\<close>, 2 for any other brand.
\<close>

theorem brand_fallback_index:
  assumes "raises E (issued s) (WaitPresence (ById ''manufacturer'')) = None"
    and "raises E (issued s @ [WaitPresence (ById ''manufacturer'')])
              (SelectOptions ''manufacturer'') = None"
    and "\<forall>t \<in> set (texts_of E (issued s @ [WaitPresence (ById ''manufacturer'')])
                        (SelectOptions ''manufacturer'')).
            \<not> brand_matches brand t \<and> \<not> brand_matches brand (strip t)"
  shows "(\<exists>rest. issued (snd (get_models A E brand s)) =
           issued s @ [WaitPresence (ById ''manufacturer''), SelectOptions ''manufacturer'',
             SelectByIndex ''manufacturer'' (if brand = ''Apple'' then 1 else 2)] @ rest) \<and>
         (\<exists>rest. issued (snd (select_model_and_next E brand model s)) =
           issued s @ [WaitPresence (ById ''manufacturer''), SelectOptions ''manufacturer'',
             SelectByIndex ''manufacturer'' (if brand = ''Apple'' then 1 else 2)] @ rest)"
  using get_models_fallback [of E s brand A] select_model_and_next_fallback [of E s brand model]
    assms
  by blast

theorem brand_fallback_index_witness:
  "take 3 (issued (snd (get_models sample_args no_brand_env ''Samsung'' start))) =
     [WaitPresence (ById ''manufacturer''), SelectOptions ''manufacturer'',
      SelectByIndex ''manufacturer'' 2] \<and>
   take 3 (issued (snd (select_model_and_next no_brand_env ''Apple'' ''iPhone 13 128GB''
                          start))) =
     [WaitPresence (ById ''manufacturer''), SelectOptions ''manufacturer'',
      SelectByIndex ''manufacturer'' 1]"
proof -
  have r: "raises no_brand_env h c = None" for h c
    by (simp add: env_defs)
  have t: "texts_of no_brand_env h (SelectOptions ''manufacturer'') =
             [''Select One'', ''Huawei'', ''Xiaomi'']" for h
    by (simp add: env_defs)
  have n: "\<forall>t \<in> set [''Select One'', ''Huawei'', ''Xiaomi''].
             \<not> brand_matches b t \<and> \<not> brand_matches b (strip t)"
    if "b = ''Samsung'' \<or> b = ''Apple''" for b
    using that by (auto simp add: run_defs)
  show ?thesis
    using brand_fallback_index [of no_brand_env start "''Samsung''" sample_args "''iPhone 13 128GB''"]
      brand_fallback_index [of no_brand_env start "''Apple''" sample_args "''iPhone 13 128GB''"]
      r t n
    by (auto simp add: start_def)
qed

section \<open>Recovery from a dead session\<close>

lemma select_fill_submit_raises:
  assumes "select_fill_submit A E b m c s2 = (Inl e, s3)"
  shows "results_df s3 = results_df s2"
proof (cases "select_model_and_next E b m s2")
  case (Pair r s')
  have k: "results_df s' = results_df s2"
    using keepsD [OF keeps_select_model_and_next, of E b m s2] Pair by simp
  show ?thesis
  proof (cases r)
    case (Inl e')
    with Pair assms k show ?thesis by (simp add: select_fill_submit_def bind_def)
  next
    case (Inr x)
    obtain y s'' where "record_quote A E b m c s' = (Inr y, s'')"
      using returnsD [OF returns_record_quote] by blast
    with Pair Inr assms show ?thesis by (simp add: select_fill_submit_def bind_def)
  qed
qed

lemma filter_session_none:
  "list_all (\<lambda>c. \<not> is_session_cmd c) cs \<Longrightarrow> filter is_session_cmd cs = []"
  by (induction cs) simp_all

text \<open>
  C8, as stated, fails when the session dies in the navigation step of a work unit: the
  handler of line 450 only continues, the next \<open>driver.get\<close> (line 433, outside every
  inner \<open>try\<close>) raises, and the loops end without any new session and without reaching
  the second model.
\<close>

theorem death_in_navigation_counterexample:
  "for_models sample_args (dies_after 3) ''Apple'' [''iPhone 13 128GB'', ''iPhone 12 64GB'']
     start =
   (Inl WebDriverException,
    \<lparr>issued = [Get URL, WaitPresence (ByTagName ''iframe''),
                FindElements (ByTagName ''iframe''), SwitchToFrame 0, Get URL],
     results_df = []\<rparr>)"
  by (simp add: run_defs env_defs)

text \<open>
  C8 (amended): when the block of lines 455 to 537 raises, the probe of line 544 raises
  too, and \<open>driver.quit\<close> and \<open>setup_driver\<close> succeed, then the work unit ends with
  \<open>break\<close>; the only session commands it issued are one \<open>Quit\<close> and one \<open>SetupDriver\<close>;
  the results are the ones from before the work unit; the remaining conditions \<open>rest\<close>
  issue nothing, and the loop over the models goes on with the next model from that
  state.
\<close>

theorem recovery_after_session_death:
  assumes "issue E (Get URL) s = (Inr (), s1)"
    and "switch_to_iframe E s1 = (Inr True, s2)"
    and "select_fill_submit A E b m c s2 = (Inl e, s3)"
    and "raises E (issued s3) CurrentUrl = Some e'"
    and "raises E (issued s3 @ [CurrentUrl]) Quit = None"
    and "raises E (issued s3 @ [CurrentUrl, Quit]) (SetupDriver (headless A)) = None"
    and "s4 = s3\<lparr>issued := issued s3 @ [CurrentUrl, Quit, SetupDriver (headless A)]\<rparr>"
  shows "work_unit A E b m c s = (Inr Break, s4) \<and>
         filter is_session_cmd (drop (length (issued s)) (issued s4))
           = [Quit, SetupDriver (headless A)] \<and>
         results_df s4 = results_df s \<and>
         for_conditions A E b m (c # rest) s = (Inr (), s4) \<and>
         bind (for_conditions A E b m (c # rest)) (\<lambda>_. for_models A E b ms) s
           = for_models A E b ms s4"
proof -
  have rec: "recover A E s3 = (Inr Break, s4)"
    using assms(4-7)
    by (simp add: recover_def bind_def try_except_def issue_def ask_def ret_def)
  have wu: "work_unit A E b m c s = (Inr Break, s4)"
    using assms(1-3) rec by (simp add: work_unit_def bind_def try_except_def)
  let ?Q = "\<lambda>c. \<not> is_session_cmd c"
  obtain c1 where c1: "issued s1 = issued s @ c1" "list_all ?Q c1"
    using emitsD [OF emits_issue assms(1), of ?Q] by auto
  obtain c2 where c2: "issued s2 = issued s1 @ c2" "list_all ?Q c2"
    using emitsD [OF emits_switch_to_iframe assms(2), of ?Q] by auto
  obtain c3 where c3: "issued s3 = issued s2 @ c3" "list_all ?Q c3"
    using emitsD [OF emits_select_fill_submit assms(3), of ?Q] by auto
  have "issued s4 = issued s @ (c1 @ c2 @ c3) @ [CurrentUrl, Quit, SetupDriver (headless A)]"
    using c1 c2 c3 assms(7) by simp
  moreover have "filter is_session_cmd (c1 @ c2 @ c3) = []"
    using c1 c2 c3 by (simp add: filter_session_none)
  ultimately have ses: "filter is_session_cmd (drop (length (issued s)) (issued s4))
           = [Quit, SetupDriver (headless A)]"
    by simp
  have r1: "results_df s1 = results_df s"
    using keepsD [OF keeps_issue, of E "Get URL" s] assms(1) by simp
  have r2: "results_df s2 = results_df s1"
    using keepsD [OF keeps_switch_to_iframe, of E s1] assms(2) by simp
  have r3: "results_df s3 = results_df s2"
    using select_fill_submit_raises [OF assms(3)] .
  have res: "results_df s4 = results_df s"
    using r1 r2 r3 assms(7) by simp
  have fc: "for_conditions A E b m (c # rest) s = (Inr (), s4)"
    using wu by (simp add: bind_def ret_def)
  show ?thesis
    using wu ses res fc by (simp add: bind_def)
qed

theorem recovery_after_session_death_witness:
  "for_conditions sample_args (dies_after 4) ''Apple'' ''iPhone 13 128GB'' screen_conditions
     \<lparr>issued = [],
      results_df = [new_result all_ok_env ''Apple'' ''iPhone 12 64GB'' ''Damaged'' ''100'']\<rparr> =
   (Inr (),
    \<lparr>issued =
       [Get URL, WaitPresence (ByTagName ''iframe''), FindElements (ByTagName ''iframe''),
        SwitchToFrame 0, WaitPresence (ById ''manufacturer''),
        CurrentUrl, Quit, SetupDriver True],
     results_df = [new_result all_ok_env ''Apple'' ''iPhone 12 64GB'' ''Damaged'' ''100'']\<rparr>)"
proof -
  let ?r = "[new_result all_ok_env ''Apple'' ''iPhone 12 64GB'' ''Damaged'' ''100'']"
  let ?E = "dies_after 4"
  let ?c1 = "[Get URL]"
  let ?c2 = "[Get URL, WaitPresence (ByTagName ''iframe''), FindElements (ByTagName ''iframe''),
        SwitchToFrame 0]"
  let ?c3 = "[Get URL, WaitPresence (ByTagName ''iframe''), FindElements (ByTagName ''iframe''),
        SwitchToFrame 0, WaitPresence (ById ''manufacturer'')]"
  have h1: "issue ?E (Get URL) \<lparr>issued = [], results_df = ?r\<rparr>
              = (Inr (), \<lparr>issued = ?c1, results_df = ?r\<rparr>)"
    by (simp add: issue_def ask_def env_defs)
  have h2: "switch_to_iframe ?E \<lparr>issued = ?c1, results_df = ?r\<rparr>
              = (Inr True, \<lparr>issued = ?c2, results_df = ?r\<rparr>)"
    by (simp add: switch_to_iframe_def bind_def try_except_def ret_def issue_def ask_def env_defs)
  have h3: "select_fill_submit sample_args ?E ''Apple'' ''iPhone 13 128GB'' ''Flawless''
              \<lparr>issued = ?c2, results_df = ?r\<rparr>
              = (Inl WebDriverException, \<lparr>issued = ?c3, results_df = ?r\<rparr>)"
    by (simp add: select_fill_submit_def select_model_and_next_def bind_def issue_def ask_def
        env_defs)
  have h4: "raises ?E (issued \<lparr>issued = ?c3, results_df = ?r\<rparr>) CurrentUrl
              = Some WebDriverException"
    by (simp add: env_defs)
  have h5: "raises ?E (issued \<lparr>issued = ?c3, results_df = ?r\<rparr> @ [CurrentUrl]) Quit = None"
    by (simp add: env_defs)
  have h6: "raises ?E (issued \<lparr>issued = ?c3, results_df = ?r\<rparr> @ [CurrentUrl, Quit])
              (SetupDriver (headless sample_args)) = None"
    by (simp add: env_defs)
  show ?thesis
    using recovery_after_session_death [OF h1 h2 h3 h4 h5 h6 refl, of "[''Good'', ''Damaged'']" "[]"]
    by (simp add: screen_conditions_def sample_args_def)
qed

section \<open>The value of the run\<close>

lemma save_and_close_value:
  "fst (save_and_close A E s) = Inr (results_df (snd (save_and_close A E s)) \<noteq> [])"
proof -
  let ?save = "try_except
             (with_results (\<lambda>df.
                if df \<noteq> []
                then bind (issue E (MakeDirs (output_excel_path A))) (\<lambda>_.
                     issue E (ToExcel (output_excel_path A)))
                else ret ()))
             (\<lambda>e. ret ())"
  let ?quit = "try_except (issue E Quit) (\<lambda>e. ret ())"
  have r1: "returns ?save" by (rule returns_try) simp
  have k1: "keeps ?save" by (simp add: keeps_intros)
  obtain s1 where s1: "?save s = (Inr (), s1)"
    using r1 by (cases "?save s") (auto simp: returns_def dest: spec [of _ s])
  obtain s2 where s2: "?quit s1 = (Inr (), s2)"
    using returns_issue_try [of E Quit] by (cases "?quit s1") (auto simp: returns_def dest: spec [of _ s1])
  have "save_and_close A E s = (Inr (results_df s2 \<noteq> []), s2)"
    using s1 s2 by (simp add: save_and_close_def bind_def with_results_def ret_def)
  then show ?thesis by simp
qed

lemma scrape_unfold:
  assumes "raises E (issued s) (SetupDriver (headless A)) = None"
  shows "\<exists>s'. scrape_trade_in_prices A E s = save_and_close A E s'"
proof -
  let ?s1 = "s\<lparr>issued := issued s @ [SetupDriver (headless A)]\<rparr>"
  let ?loop = "try_except (for_brands A E brands) (\<lambda>e. ret ())"
  have "returns ?loop" by (rule returns_try) simp
  then obtain s3 where s3: "?loop (?s1\<lparr>results_df := []\<rparr>) = (Inr (), s3)"
    by (cases "?loop (?s1\<lparr>results_df := []\<rparr>)") (auto simp: returns_def dest: spec [of _ "?s1\<lparr>results_df := []\<rparr>"])
  have "scrape_trade_in_prices A E s = save_and_close A E s3"
    using assms s3
    by (simp add: scrape_trade_in_prices_def bind_def issue_def ask_def clear_results_def)
  then show ?thesis by blast
qed

lemma sample_run:
  "fst (scrape_trade_in_prices sample_args all_ok_env start) = Inr True"
  by (simp add: run_defs env_defs)

lemma sample_run_no_radio:
  "fst (scrape_trade_in_prices sample_args no_radio_env start) = Inr False"
  by (simp add: run_defs env_defs)

text \<open>
  C9: once the first driver is set up (line 69 is outside the \<open>try\<close>), the run always
  returns, and its value is \<open>True\<close> exactly when the final results are non-empty.
\<close>

theorem scrape_returns_nonempty:
  assumes "raises E (issued s) (SetupDriver (headless A)) = None"
  shows "fst (scrape_trade_in_prices A E s) =
           Inr (results_df (snd (scrape_trade_in_prices A E s)) \<noteq> [])"
proof -
  obtain s' where "scrape_trade_in_prices A E s = save_and_close A E s'"
    using scrape_unfold [OF assms] by blast
  then show ?thesis by (simp add: save_and_close_value)
qed

theorem scrape_returns_nonempty_witness:
  "fst (scrape_trade_in_prices sample_args all_ok_env start) = Inr True \<and>
   results_df (snd (scrape_trade_in_prices sample_args all_ok_env start)) \<noteq> [] \<and>
   fst (scrape_trade_in_prices sample_args no_radio_env start) = Inr False \<and>
   results_df (snd (scrape_trade_in_prices sample_args no_radio_env start)) = []"
  using scrape_returns_nonempty [of all_ok_env start sample_args]
    scrape_returns_nonempty [of no_radio_env start sample_args]
    sample_run sample_run_no_radio
  by (simp add: env_defs)

section \<open>The device type\<close>

lemma scrape_rows:
  assumes "\<And>b m c p. b \<in> set brands \<Longrightarrow> is_listed m \<Longrightarrow> c \<in> set screen_conditions
             \<Longrightarrow> P (new_result E b m c p)"
  shows "list_all P (results_df (snd (scrape_trade_in_prices A E start)))"
proof (cases "raises E [] (SetupDriver (headless A))")
  case (Some e)
  then show ?thesis
    by (simp add: scrape_trade_in_prices_def bind_def issue_def ask_def start_def)
next
  case None
  let ?s2 = "\<lparr>issued = [SetupDriver (headless A)], results_df = []\<rparr>"
  let ?loop = "try_except (for_brands A E brands) (\<lambda>e. ret ())"
  have g: "grows P ?loop"
    by (intro grows_try_except grows_brands_in assms) (simp_all add: grows_keeps)
  have "returns ?loop" by (rule returns_try) simp
  then obtain s3 where s3: "?loop ?s2 = (Inr (), s3)"
    by (cases "?loop ?s2") (auto simp: returns_def dest: spec [of _ ?s2])
  have eq: "scrape_trade_in_prices A E start = save_and_close A E s3"
    using None s3
    by (simp add: scrape_trade_in_prices_def bind_def issue_def ask_def clear_results_def start_def)
  obtain rs where "results_df (snd (?loop ?s2)) = results_df ?s2 @ rs" "list_all P rs"
    using g by (auto simp: grows_def dest: spec [of _ ?s2])
  then have "list_all P (results_df s3)" using s3 by simp
  moreover have "results_df (snd (save_and_close A E s3)) = results_df s3"
    using keeps_save_and_close [of A E] by (simp add: keeps_def)
  ultimately show ?thesis using eq by simp
qed

lemma sample_rows:
  "map (\<lambda>r. (Brand r, Model r, Condition r, Device_Type r))
     (results_df (snd (scrape_trade_in_prices sample_args all_ok_env start))) =
     [(''Apple'', ''iPhone 13 128GB'', ''Flawless'', ''Smartphone''),
      (''Apple'', ''iPhone 13 128GB'', ''Good'', ''Smartphone''),
      (''Apple'', ''iPhone 13 128GB'', ''Damaged'', ''Smartphone''),
      (''Samsung'', ''iPhone 13 128GB'', ''Flawless'', ''Smartphone''),
      (''Samsung'', ''iPhone 13 128GB'', ''Good'', ''Smartphone''),
      (''Samsung'', ''iPhone 13 128GB'', ''Damaged'', ''Smartphone'')]"
  by (simp add: run_defs env_defs new_result_fields)

lemma sample_rows_pixel:
  "map (\<lambda>r. (Brand r, Model r, Condition r, Device_Type r))
     (results_df (snd (scrape_trade_in_prices sample_args pixel_env start))) =
     [(''Apple'', ''Pixel 8 256GB'', ''Flawless'', ''Tablet''),
      (''Apple'', ''Pixel 8 256GB'', ''Good'', ''Tablet''),
      (''Apple'', ''Pixel 8 256GB'', ''Damaged'', ''Tablet''),
      (''Samsung'', ''Pixel 8 256GB'', ''Flawless'', ''Tablet''),
      (''Samsung'', ''Pixel 8 256GB'', ''Good'', ''Tablet''),
      (''Samsung'', ''Pixel 8 256GB'', ''Damaged'', ''Tablet'')]"
  by (simp add: run_defs env_defs new_result_fields)

lemma sample_unit_galaxy:
  "map (\<lambda>r. (Brand r, Model r, Condition r, Device_Type r))
     (results_df (snd (work_unit sample_args all_ok_env ''Samsung'' ''Galaxy S21 128GB''
                         ''Damaged'' start))) =
     [(''Samsung'', ''Galaxy S21 128GB'', ''Damaged'', ''Smartphone'')]"
  by (simp add: run_defs env_defs new_result_fields)

text \<open>
  C10: the row a work unit appends carries the brand, the model and the condition of
  that work unit, and its device type is \<open>Smartphone\<close> when that model contains \<open>iPhone\<close>
  or \<open>Galaxy\<close>, and \<open>Tablet\<close> otherwise. In every row of the final results of a run, the
  device type is decided that way by the row's model, the brand is one of the two
  brands, the model is an option the model dropdown listed, and the condition is one of
  the three conditions.
\<close>

theorem device_type_of_recorded_rows:
  "(results_df (snd (work_unit A E b m c s)) = results_df s \<or>
    (\<exists>r. results_df (snd (work_unit A E b m c s)) = results_df s @ [r] \<and>
         Brand r = b \<and> Model r = m \<and> Condition r = c \<and>
         Device_Type r =
           (if contains ''iPhone'' m \<or> contains ''Galaxy'' m
            then ''Smartphone'' else ''Tablet''))) \<and>
   (\<forall>r \<in> set (results_df (snd (scrape_trade_in_prices A E start))).
      Device_Type r =
        (if contains ''iPhone'' (Model r) \<or> contains ''Galaxy'' (Model r)
         then ''Smartphone'' else ''Tablet'') \<and>
      Brand r \<in> set brands \<and> is_listed (Model r) \<and> Condition r \<in> set screen_conditions)"
proof
  show "results_df (snd (work_unit A E b m c s)) = results_df s \<or>
    (\<exists>r. results_df (snd (work_unit A E b m c s)) = results_df s @ [r] \<and>
         Brand r = b \<and> Model r = m \<and> Condition r = c \<and>
         Device_Type r =
           (if contains ''iPhone'' m \<or> contains ''Galaxy'' m
            then ''Smartphone'' else ''Tablet''))"
    using work_unit_row [of A E b m c s] by (auto simp: new_result_fields)
next
  have "list_all (\<lambda>r. Device_Type r =
        (if contains ''iPhone'' (Model r) \<or> contains ''Galaxy'' (Model r)
         then ''Smartphone'' else ''Tablet'') \<and>
      Brand r \<in> set brands \<and> is_listed (Model r) \<and> Condition r \<in> set screen_conditions)
     (results_df (snd (scrape_trade_in_prices A E start)))"
    by (rule scrape_rows) (simp add: new_result_fields)
  then show "\<forall>r \<in> set (results_df (snd (scrape_trade_in_prices A E start))).
      Device_Type r =
        (if contains ''iPhone'' (Model r) \<or> contains ''Galaxy'' (Model r)
         then ''Smartphone'' else ''Tablet'') \<and>
      Brand r \<in> set brands \<and> is_listed (Model r) \<and> Condition r \<in> set screen_conditions"
    by (simp add: list_all_iff)
qed

theorem device_type_of_recorded_rows_witness:
  "map (\<lambda>r. (Brand r, Model r, Condition r, Device_Type r))
     (results_df (snd (scrape_trade_in_prices sample_args all_ok_env start))) =
     [(''Apple'', ''iPhone 13 128GB'', ''Flawless'', ''Smartphone''),
      (''Apple'', ''iPhone 13 128GB'', ''Good'', ''Smartphone''),
      (''Apple'', ''iPhone 13 128GB'', ''Damaged'', ''Smartphone''),
      (''Samsung'', ''iPhone 13 128GB'', ''Flawless'', ''Smartphone''),
      (''Samsung'', ''iPhone 13 128GB'', ''Good'', ''Smartphone''),
      (''Samsung'', ''iPhone 13 128GB'', ''Damaged'', ''Smartphone'')] \<and>
   map (\<lambda>r. (Brand r, Model r, Condition r, Device_Type r))
     (results_df (snd (scrape_trade_in_prices sample_args pixel_env start))) =
     [(''Apple'', ''Pixel 8 256GB'', ''Flawless'', ''Tablet''),
      (''Apple'', ''Pixel 8 256GB'', ''Good'', ''Tablet''),
      (''Apple'', ''Pixel 8 256GB'', ''Damaged'', ''Tablet''),
      (''Samsung'', ''Pixel 8 256GB'', ''Flawless'', ''Tablet''),
      (''Samsung'', ''Pixel 8 256GB'', ''Good'', ''Tablet''),
      (''Samsung'', ''Pixel 8 256GB'', ''Damaged'', ''Tablet'')] \<and>
   map (\<lambda>r. (Brand r, Model r, Condition r, Device_Type r))
     (results_df (snd (work_unit sample_args all_ok_env ''Samsung'' ''Galaxy S21 128GB''
                         ''Damaged'' start))) =
     [(''Samsung'', ''Galaxy S21 128GB'', ''Damaged'', ''Smartphone'')]"
  using device_type_of_recorded_rows [of sample_args all_ok_env "''Samsung''"
      "''Galaxy S21 128GB''" "''Damaged''" start]
    device_type_of_recorded_rows [of sample_args pixel_env "''Samsung''"
      "''Galaxy S21 128GB''" "''Damaged''" start]
    sample_rows sample_rows_pixel sample_unit_galaxy
  by simp

end
